theory Spec2Isabelle
  imports Complex_Main "HOL-Library.List_Lexorder"
begin

section \<open>Python values\<close>

text \<open>
  A Python \<open>str\<close> is the list of its code points; the titles are Cyrillic, so the
  8-bit \<open>char\<close> of HOL is too small. \<open>py ''sbert''\<close> is the literal \<open>'sbert'\<close>.
  A Python \<open>float\<close> is modelled as a \<open>real\<close>: the claims are about order and
  arithmetic identities of the scores, not about rounding.
\<close>

type_synonym pystr = "nat list"

abbreviation py :: "string \<Rightarrow> pystr" where
  "py s \<equiv> map of_char s"

datatype py_error = KeyError | ValueError | TypeError | ModelError

section \<open>The embedding cache: \<open>LRUCache\<close> (utils/similarity.py, lines 49-68)\<close>

text \<open>
  \<open>class LRUCache(OrderedDict)\<close>: the ordered dictionary is the list of its items,
  oldest first, with pairwise distinct keys. \<open>capacity\<close> is the Python \<open>int\<close>
  read from \<open>MAX_CACHE_SIZE\<close>.
\<close>

record ('k, 'v) LRUCache =
  capacity :: int
  entries :: "('k \<times> 'v) list"

definition LRUCache_init :: "int \<Rightarrow> ('k, 'v) LRUCache" where
  "LRUCache_init cap = \<lparr>capacity = cap, entries = []\<rparr>"

definition cache_keys :: "('k, 'v) LRUCache \<Rightarrow> 'k list" where
  "cache_keys c = map fst (entries c)"

text \<open>\<open>key in self\<close>\<close>

definition contains_key :: "('k, 'v) LRUCache \<Rightarrow> 'k \<Rightarrow> bool" where
  "contains_key c k = (k \<in> set (cache_keys c))"

text \<open>\<open>len(self)\<close>\<close>

definition cache_len :: "('k, 'v) LRUCache \<Rightarrow> int" where
  "cache_len c = int (length (entries c))"

text \<open>\<open>OrderedDict.move_to_end(key)\<close>: the item goes last; \<open>KeyError\<close> when absent.\<close>

definition move_to_end :: "('k \<times> 'v) list \<Rightarrow> 'k \<Rightarrow> py_error + ('k \<times> 'v) list" where
  "move_to_end es k =
     (case map_of es k of
        None \<Rightarrow> Inl KeyError
      | Some v \<Rightarrow> Inr (filter (\<lambda>p. fst p \<noteq> k) es @ [(k, v)]))"

text \<open>\<open>OrderedDict.__setitem__\<close>: a present key keeps its place, a new one goes last.\<close>

definition od_setitem :: "('k \<times> 'v) list \<Rightarrow> 'k \<Rightarrow> 'v \<Rightarrow> ('k \<times> 'v) list" where
  "od_setitem es k v =
     (if k \<in> set (map fst es)
      then map (\<lambda>p. if fst p = k then (k, v) else p) es
      else es @ [(k, v)])"

text \<open>\<open>OrderedDict.__delitem__\<close>\<close>

definition od_delitem :: "('k \<times> 'v) list \<Rightarrow> 'k \<Rightarrow> py_error + ('k \<times> 'v) list" where
  "od_delitem es k =
     (if k \<in> set (map fst es) then Inr (filter (\<lambda>p. fst p \<noteq> k) es) else Inl KeyError)"

text \<open>
  \<open>LRUCache.__getitem__\<close>: a present key is moved to the end, then read; an absent
  key raises \<open>KeyError\<close> and leaves the cache as it was.
\<close>

definition getitem :: "('k, 'v) LRUCache \<Rightarrow> 'k \<Rightarrow> py_error + ('v \<times> ('k, 'v) LRUCache)" where
  "getitem c k =
     (if contains_key c k
      then (case move_to_end (entries c) k of
              Inl e \<Rightarrow> Inl e
            | Inr es \<Rightarrow>
                (case map_of es k of
                   None \<Rightarrow> Inl KeyError
                 | Some v \<Rightarrow> Inr (v, c\<lparr>entries := es\<rparr>)))
      else Inl KeyError)"

text \<open>
  \<open>LRUCache.__setitem__\<close>: a present key is moved to the end, the value is stored, and
  when \<open>len(self) > self.capacity\<close> the first key of the iteration order is deleted.
  After the store the dictionary is never empty, so \<open>next(iter(self))\<close> cannot raise.
\<close>

definition setitem :: "('k, 'v) LRUCache \<Rightarrow> 'k \<Rightarrow> 'v \<Rightarrow> ('k, 'v) LRUCache" where
  "setitem c k v =
     (let es1 = (if contains_key c k
                 then (case move_to_end (entries c) k of Inl _ \<Rightarrow> entries c | Inr es \<Rightarrow> es)
                 else entries c);
          es2 = od_setitem es1 k v
      in if int (length es2) > capacity c
         then (case es2 of
                 [] \<Rightarrow> c\<lparr>entries := es2\<rparr>
               | oldest # _ \<Rightarrow>
                   (case od_delitem es2 (fst oldest) of
                      Inl _ \<Rightarrow> c\<lparr>entries := es2\<rparr>
                    | Inr es3 \<Rightarrow> c\<lparr>entries := es3\<rparr>))
         else c\<lparr>entries := es2\<rparr>)"

text \<open>\<open>del cache[key]\<close>\<close>

definition delitem :: "('k, 'v) LRUCache \<Rightarrow> 'k \<Rightarrow> py_error + ('k, 'v) LRUCache" where
  "delitem c k =
     (case od_delitem (entries c) k of Inl e \<Rightarrow> Inl e | Inr es \<Rightarrow> Inr (c\<lparr>entries := es\<rparr>))"

text \<open>
  A caller's view of the cache: a sequence of stores, reads and deletions. A read or a
  deletion that raises \<open>KeyError\<close> leaves the cache unchanged.
\<close>

datatype ('k, 'v) cache_op = Put 'k 'v | Get 'k | Del 'k

fun apply_op :: "('k, 'v) LRUCache \<Rightarrow> ('k, 'v) cache_op \<Rightarrow> ('k, 'v) LRUCache" where
  "apply_op c (Put k v) = setitem c k v"
| "apply_op c (Get k) = (case getitem c k of Inl _ \<Rightarrow> c | Inr (_, c') \<Rightarrow> c')"
| "apply_op c (Del k) = (case delitem c k of Inl _ \<Rightarrow> c | Inr c' \<Rightarrow> c')"

definition run_ops :: "('k, 'v) LRUCache \<Rightarrow> ('k, 'v) cache_op list \<Rightarrow> ('k, 'v) LRUCache" where
  "run_ops c ops = foldl apply_op c ops"

definition put_all :: "('k, 'v) LRUCache \<Rightarrow> ('k \<times> 'v) list \<Rightarrow> ('k, 'v) LRUCache" where
  "put_all c kvs = foldl (\<lambda>c p. setitem c (fst p) (snd p)) c kvs"

text \<open>The invariant of a dictionary within its capacity.\<close>

definition lru_inv :: "('k, 'v) LRUCache \<Rightarrow> bool" where
  "lru_inv c = (distinct (cache_keys c) \<and> cache_len c \<le> capacity c)"

section \<open>What the matching engine takes from outside\<close>

text \<open>
  The engine calls Python built-ins, the embedding model and the keyword file
  read at run time. They are the fields of
  \<open>py_env\<close>:
  \<^item> \<open>str_lower\<close> is \<open>str.lower\<close>;
  \<^item> \<open>get_sentence_embedding\<close> is the function of that name (tokenizer, SBERT model and
    mean pooling), a black box from a text to a vector; \<open>None\<close> when it raises;
  \<^item> \<open>keywords_topics\<close> is the list under \<open>topics\<close> of \<open>filters/keywords.yaml\<close>, its
    entries that are strings (the code skips the others); \<open>None\<close> when the file
    cannot be read;
  \<^item> \<open>str_hash\<close> is \<open>hash\<close> on strings;
  \<^item> \<open>timestamp_now\<close> is \<open>datetime.now().timestamp()\<close>;
  \<^item> \<open>set_order\<close> is the order in which Python iterates a \<open>set\<close> of strings
    (\<open>list(s)\<close>, \<open>for x in s\<close>), which depends on the hashes and not on the order of
    insertion.
\<close>

record py_env =
  str_lower :: "pystr \<Rightarrow> pystr"
  get_sentence_embedding :: "pystr \<Rightarrow> real list option"
  keywords_topics :: "pystr list option"
  str_hash :: "pystr \<Rightarrow> int"
  timestamp_now :: real
  set_order :: "pystr set \<Rightarrow> pystr list"

section \<open>Text normalizer (utils/similarity.py, lines 327-358)\<close>

text \<open>
  The class \<open>\s\<close> of \<open>re\<close> on a \<open>str\<close> pattern, which is also what \<open>str.strip()\<close> and
  \<open>str.split()\<close> take for whitespace.
\<close>

definition is_space :: "nat \<Rightarrow> bool" where
  "is_space c =
     ((9 \<le> c \<and> c \<le> 13) \<or> (28 \<le> c \<and> c \<le> 32) \<or> c = 133 \<or> c = 160 \<or> c = 5760 \<or>
      (8192 \<le> c \<and> c \<le> 8202) \<or> c = 8232 \<or> c = 8233 \<or> c = 8239 \<or> c = 8287 \<or> c = 12288)"

text \<open>The characters the first \<open>re.sub\<close> keeps: the Cyrillic small letters U+0430..U+044F
  and U+0451, \<open>a-z\<close>, \<open>0-9\<close> and whitespace.\<close>

definition kept_char :: "nat \<Rightarrow> bool" where
  "kept_char c =
     ((1072 \<le> c \<and> c \<le> 1103) \<or> (97 \<le> c \<and> c \<le> 122) \<or> (48 \<le> c \<and> c \<le> 57) \<or>
      c = 1105 \<or> is_space c)"

text \<open>
  \<open>re.sub(r'\s+', ' ', text)\<close>: every run of whitespace becomes one space. The flag
  says that the character before was whitespace.
\<close>

fun collapse_ws :: "bool \<Rightarrow> pystr \<Rightarrow> pystr" where
  "collapse_ws prev [] = []"
| "collapse_ws prev (c # cs) =
     (if is_space c
      then (if prev then collapse_ws True cs else 32 # collapse_ws True cs)
      else c # collapse_ws False cs)"

text \<open>\<open>str.strip()\<close>\<close>

definition py_strip :: "pystr \<Rightarrow> pystr" where
  "py_strip s = rev (dropWhile is_space (rev (dropWhile is_space s)))"

text \<open>\<open>str.split()\<close>: the maximal runs of characters that are not whitespace.\<close>

fun py_split_acc :: "pystr \<Rightarrow> pystr \<Rightarrow> pystr list" where
  "py_split_acc w [] = (if w = [] then [] else [w])"
| "py_split_acc w (c # cs) =
     (if is_space c
      then (if w = [] then py_split_acc [] cs else w # py_split_acc [] cs)
      else py_split_acc (w @ [c]) cs)"

definition py_split :: "pystr \<Rightarrow> pystr list" where
  "py_split s = py_split_acc [] s"

text \<open>\<open>needle in haystack\<close> on strings.\<close>

primrec str_contains :: "pystr \<Rightarrow> pystr \<Rightarrow> bool" where
  "str_contains [] needle = (needle = [])"
| "str_contains (c # cs) needle =
     (take (length needle) (c # cs) = needle \<or> str_contains cs needle)"

definition normalize_text_simple :: "py_env \<Rightarrow> pystr \<Rightarrow> pystr" where
  "normalize_text_simple env text_in =
     (if text_in = [] then []
      else py_strip (collapse_ws False
             (map (\<lambda>c. if kept_char c then c else 32) (str_lower env text_in))))"

definition normalize_text :: "py_env \<Rightarrow> pystr \<Rightarrow> pystr" where
  "normalize_text env text_in = normalize_text_simple env text_in"

definition COMMON_WORD_STOPLIST :: "pystr list" where
  "COMMON_WORD_STOPLIST = [
    [1088, 1072, 1089, 1089, 1082, 1072, 1079, 1072, 1083],
    [1088, 1072, 1089, 1089, 1082, 1072, 1079, 1072, 1083, 1072],
    [1088, 1072, 1089, 1089, 1082, 1072, 1079, 1072, 1083, 1086],
    [1088, 1072, 1089, 1089, 1082, 1072, 1079, 1072, 1083, 1080],
    [1089, 1086, 1086, 1073, 1097, 1080, 1083],
    [1089, 1086, 1086, 1073, 1097, 1080, 1083, 1072],
    [1089, 1086, 1086, 1073, 1097, 1080, 1083, 1086],
    [1089, 1086, 1086, 1073, 1097, 1080, 1083, 1080],
    [1079, 1072, 1103, 1074, 1080, 1083],
    [1079, 1072, 1103, 1074, 1080, 1083, 1072],
    [1079, 1072, 1103, 1074, 1080, 1083, 1086],
    [1079, 1072, 1103, 1074, 1080, 1083, 1080],
    [1086, 1090, 1084, 1077, 1090, 1080, 1083],
    [1086, 1090, 1084, 1077, 1090, 1080, 1083, 1072],
    [1086, 1090, 1084, 1077, 1090, 1080, 1083, 1086],
    [1086, 1090, 1084, 1077, 1090, 1080, 1083, 1080],
    [1091, 1090, 1086, 1095, 1085, 1080, 1083],
    [1091, 1090, 1086, 1095, 1085, 1080, 1083, 1072],
    [1091, 1090, 1086, 1095, 1085, 1080, 1083, 1086],
    [1091, 1090, 1086, 1095, 1085, 1080, 1083, 1080],
    [1091, 1082, 1072, 1079, 1072, 1083],
    [1091, 1082, 1072, 1079, 1072, 1083, 1072],
    [1091, 1082, 1072, 1079, 1072, 1083, 1086],
    [1091, 1082, 1072, 1079, 1072, 1083, 1080],
    [1087, 1086, 1076, 1095, 1077, 1088, 1082, 1085, 1091, 1083],
    [1087, 1086, 1076, 1095, 1077, 1088, 1082, 1085, 1091, 1083, 1072],
    [1087, 1086, 1076, 1095, 1077, 1088, 1082, 1085, 1091, 1083, 1086],
    [1087, 1086, 1076, 1095, 1077, 1088, 1082, 1085, 1091, 1083, 1080],
    [1076, 1086, 1073, 1072, 1074, 1080, 1083],
    [1076, 1086, 1073, 1072, 1074, 1080, 1083, 1072],
    [1076, 1086, 1073, 1072, 1074, 1080, 1083, 1086],
    [1076, 1086, 1073, 1072, 1074, 1080, 1083, 1080],
    [1087, 1088, 1086, 1082, 1086, 1084, 1084, 1077, 1085, 1090, 1080, 1088, 1086, 1074, 1072, 1083],
    [1087, 1088, 1086, 1082, 1086, 1084, 1084, 1077, 1085, 1090, 1080, 1088, 1086, 1074, 1072, 1083, 1072],
    [1087, 1088, 1086, 1082, 1086, 1084, 1084, 1077, 1085, 1090, 1080, 1088, 1086, 1074, 1072, 1083, 1086],
    [1087, 1088, 1086, 1082, 1086, 1084, 1084, 1077, 1085, 1090, 1080, 1088, 1086, 1074, 1072, 1083, 1080],
    [1085, 1072, 1087, 1080, 1089, 1072, 1083],
    [1085, 1072, 1087, 1080, 1089, 1072, 1083, 1072],
    [1085, 1072, 1087, 1080, 1089, 1072, 1083, 1086],
    [1085, 1072, 1087, 1080, 1089, 1072, 1083, 1080],
    [1089, 1082, 1072, 1079, 1072, 1083],
    [1089, 1082, 1072, 1079, 1072, 1083, 1072],
    [1089, 1082, 1072, 1079, 1072, 1083, 1086],
    [1089, 1082, 1072, 1079, 1072, 1083, 1080],
    [1089, 1086, 1073, 1103],
    [1084, 1086, 1089, 1082],
    [1085, 1086, 1074, 1086]
  ]"

definition normalize_for_match :: "py_env \<Rightarrow> pystr \<Rightarrow> pystr set" where
  "normalize_for_match env text_in =
     set (map (take 4)
       (filter (\<lambda>w. length w > 2 \<and> str_lower env w \<notin> set COMMON_WORD_STOPLIST)
          (py_split (normalize_text_simple env text_in))))"

definition count_common_words :: "py_env \<Rightarrow> pystr \<Rightarrow> pystr \<Rightarrow> nat" where
  "count_common_words env title1 title2 =
     card (normalize_for_match env title1 \<inter> normalize_for_match env title2)"

text \<open>
  \<open>has_keyword_phrase_in_both\<close> (lines 382-439): the first keyword found in both
  normalized titles returns \<open>True\<close>; a phrase with a space is looked up as a substring,
  a single word between spaces. Any exception, the unreadable file among them, is
  caught and gives \<open>False\<close>.
\<close>

definition keyword_in_both :: "pystr \<Rightarrow> pystr \<Rightarrow> pystr \<Rightarrow> bool" where
  "keyword_in_both norm1 norm2 norm_kw =
     (if 32 \<in> set norm_kw
      then str_contains norm1 norm_kw \<and> str_contains norm2 norm_kw
      else str_contains (32 # norm1 @ [32]) (32 # norm_kw @ [32]) \<and>
           str_contains (32 # norm2 @ [32]) (32 # norm_kw @ [32]))"

definition has_keyword_phrase_in_both :: "py_env \<Rightarrow> pystr \<Rightarrow> pystr \<Rightarrow> bool" where
  "has_keyword_phrase_in_both env title1 title2 =
     (case keywords_topics env of
        None \<Rightarrow> False
      | Some topics \<Rightarrow>
          list_ex (\<lambda>kw. keyword_in_both (normalize_text_simple env title1)
                          (normalize_text_simple env title2) (normalize_text_simple env kw))
            topics)"

section \<open>Embeddings and their caches (utils/similarity.py, lines 71-72 and 277-325)\<close>

record dzen_cache_entry =
  dz_embedding :: "real list"
  dz_timestamp :: real

record mosru_embeddings =
  emb_title :: "real list"
  emb_title_snippet :: "real list"
  emb_snippet :: "real list"

record mosru_cache_entry =
  ms_embeddings :: mosru_embeddings
  ms_timestamp :: real

text \<open>The two module-level caches.\<close>

record emb_caches =
  DZEN_EMB_CACHE :: "(pystr, dzen_cache_entry) LRUCache"
  MOSRU_EMB_CACHE :: "(pystr, mosru_cache_entry) LRUCache"

text \<open>\<open>MosruHistoryItem\<close> (utils/models.py, lines 57-63).\<close>

record MosruHistoryItem =
  m_url :: pystr
  m_title :: pystr
  m_snippet :: pystr
  m_added_at :: pystr
  in_dzen :: bool

text \<open>
  \<open>get_dzen_embedding\<close>: a cached embedding is read (the read moves the key to the end
  of the cache), a missing one is computed and stored with the time.
\<close>

definition get_dzen_embedding ::
  "py_env \<Rightarrow> emb_caches \<Rightarrow> pystr \<Rightarrow> pystr \<Rightarrow> (py_error + real list) \<times> emb_caches" where
  "get_dzen_embedding env st url title =
     (if contains_key (DZEN_EMB_CACHE st) url
      then (case getitem (DZEN_EMB_CACHE st) url of
              Inl e \<Rightarrow> (Inl e, st)
            | Inr (ent, c') \<Rightarrow> (Inr (dz_embedding ent), st\<lparr>DZEN_EMB_CACHE := c'\<rparr>))
      else (case get_sentence_embedding env title of
              None \<Rightarrow> (Inl ModelError, st)
            | Some emb \<Rightarrow>
                (Inr emb,
                 st\<lparr>DZEN_EMB_CACHE := setitem (DZEN_EMB_CACHE st) url
                      \<lparr>dz_embedding = emb, dz_timestamp = timestamp_now env\<rparr>\<rparr>)))"

text \<open>
  \<open>get_mosru_embeddings\<close>: title, title + \<open>'. '\<close> + snippet, and snippet; without a
  snippet the second is the title's vector and the third is \<open>np.zeros_like\<close> of it.
\<close>

definition compute_mosru_embeddings :: "py_env \<Rightarrow> MosruHistoryItem \<Rightarrow> py_error + mosru_embeddings" where
  "compute_mosru_embeddings env item =
     (case get_sentence_embedding env (m_title item) of
        None \<Rightarrow> Inl ModelError
      | Some e_title \<Rightarrow>
          (if m_snippet item \<noteq> []
           then (case get_sentence_embedding env (m_title item @ py ''. '' @ m_snippet item) of
                   None \<Rightarrow> Inl ModelError
                 | Some e_ts \<Rightarrow>
                     (case get_sentence_embedding env (m_snippet item) of
                        None \<Rightarrow> Inl ModelError
                      | Some e_s \<Rightarrow>
                          Inr \<lparr>emb_title = e_title, emb_title_snippet = e_ts, emb_snippet = e_s\<rparr>))
           else Inr \<lparr>emb_title = e_title, emb_title_snippet = e_title,
                     emb_snippet = replicate (length e_title) 0\<rparr>))"

definition get_mosru_embeddings ::
  "py_env \<Rightarrow> emb_caches \<Rightarrow> MosruHistoryItem \<Rightarrow> (py_error + mosru_embeddings) \<times> emb_caches" where
  "get_mosru_embeddings env st item =
     (if contains_key (MOSRU_EMB_CACHE st) (m_url item)
      then (case getitem (MOSRU_EMB_CACHE st) (m_url item) of
              Inl e \<Rightarrow> (Inl e, st)
            | Inr (ent, c') \<Rightarrow> (Inr (ms_embeddings ent), st\<lparr>MOSRU_EMB_CACHE := c'\<rparr>))
      else (case compute_mosru_embeddings env item of
              Inl e \<Rightarrow> (Inl e, st)
            | Inr embs \<Rightarrow>
                (Inr embs,
                 st\<lparr>MOSRU_EMB_CACHE := setitem (MOSRU_EMB_CACHE st) (m_url item)
                      \<lparr>ms_embeddings = embs, ms_timestamp = timestamp_now env\<rparr>\<rparr>)))"

section \<open>Similarity scorer (utils/similarity.py, lines 494-547)\<close>

text \<open>\<open>np.dot\<close> of two vectors raises \<open>ValueError\<close> when their lengths differ.\<close>

definition np_dot :: "real list \<Rightarrow> real list \<Rightarrow> py_error + real" where
  "np_dot a b =
     (if length a = length b then Inr (sum_list (map2 (*) a b)) else Inl ValueError)"

text \<open>\<open>np.linalg.norm\<close>\<close>

definition np_norm :: "real list \<Rightarrow> real" where
  "np_norm a = sqrt (sum_list (map (\<lambda>x. x * x) a))"

text \<open>\<open>float(np.dot(a, b) / (np.linalg.norm(a) * np.linalg.norm(b) + 1e-9))\<close>\<close>

definition cosine_eps :: "real list \<Rightarrow> real list \<Rightarrow> py_error + real" where
  "cosine_eps a b =
     (case np_dot a b of
        Inl e \<Rightarrow> Inl e
      | Inr d \<Rightarrow> Inr (d / (np_norm a * np_norm b + 1 / 10 ^ 9)))"

text \<open>Lines 514-533: the bonus and the final score.\<close>

definition score_bonus :: "real \<Rightarrow> nat \<Rightarrow> bool \<Rightarrow> real" where
  "score_bonus avg_score n_common has_matching_keywords =
     (if n_common \<ge> 3
      then (if avg_score \<ge> 7 / 10 then 1 / 10 else 15 / 100)
      else if has_matching_keywords then 15 / 100
      else 0)"

text \<open>The body of the \<open>try\<close>: every exception leaves it as \<open>Inl\<close>, with the caches as
  they were when it was raised.\<close>

definition similarity_try ::
  "py_env \<Rightarrow> emb_caches \<Rightarrow> pystr \<Rightarrow> pystr \<Rightarrow> MosruHistoryItem \<Rightarrow> (py_error + real) \<times> emb_caches" where
  "similarity_try env st dzen_url dzen_title mosru_item =
     (case get_dzen_embedding env st dzen_url dzen_title of
        (Inl e, st1) \<Rightarrow> (Inl e, st1)
      | (Inr dzen_emb, st1) \<Rightarrow>
          (case get_mosru_embeddings env st1 mosru_item of
             (Inl e, st2) \<Rightarrow> (Inl e, st2)
           | (Inr mosru_embs, st2) \<Rightarrow>
               (case cosine_eps dzen_emb (emb_title mosru_embs) of
                  Inl e \<Rightarrow> (Inl e, st2)
                | Inr score_title \<Rightarrow>
                    (case cosine_eps dzen_emb (emb_title_snippet mosru_embs) of
                       Inl e \<Rightarrow> (Inl e, st2)
                     | Inr score_title_snippet \<Rightarrow>
                         (let avg_score = (score_title + score_title_snippet) / 2;
                              n_common = count_common_words env dzen_title (m_title mosru_item);
                              has_matching_keywords =
                                has_keyword_phrase_in_both env dzen_title (m_title mosru_item);
                              bonus = score_bonus avg_score n_common has_matching_keywords
                          in (Inr (min (avg_score * (1 + bonus)) 1), st2))))))"

text \<open>\<open>calculate_similarity_sbert\<close>: \<open>except Exception: return 0.0\<close>.\<close>

definition calculate_similarity_sbert ::
  "py_env \<Rightarrow> emb_caches \<Rightarrow> pystr \<Rightarrow> pystr \<Rightarrow> MosruHistoryItem \<Rightarrow> real \<times> emb_caches" where
  "calculate_similarity_sbert env st dzen_url dzen_title mosru_item =
     (case similarity_try env st dzen_url dzen_title mosru_item of
        (Inl e, st') \<Rightarrow> (0, st')
      | (Inr final_score, st') \<Rightarrow> (final_score, st'))"

section \<open>Matcher (utils/similarity.py, lines 560-580)\<close>

text \<open>\<open>str\<close> of an \<open>int\<close>, for the f-string \<open>f"temp_{hash(dzen_title)}"\<close>.\<close>

fun nat_digits :: "nat \<Rightarrow> pystr" where
  "nat_digits n = (if n < 10 then [48 + n] else nat_digits (n div 10) @ [48 + n mod 10])"

definition int_str :: "int \<Rightarrow> pystr" where
  "int_str i = (if i < 0 then 45 # nat_digits (nat (- i)) else nat_digits (nat i))"

definition temp_url_of :: "py_env \<Rightarrow> pystr \<Rightarrow> pystr" where
  "temp_url_of env dzen_title = py ''temp_'' @ int_str (str_hash env dzen_title)"

text \<open>
  The loop of \<open>find_best_match\<close>, with the running \<open>best_item\<close> and \<open>best_score\<close> and
  the caches threaded through the comparisons.
\<close>

fun best_match_loop ::
  "py_env \<Rightarrow> pystr \<Rightarrow> pystr \<Rightarrow> MosruHistoryItem list \<Rightarrow>
   MosruHistoryItem option \<Rightarrow> real \<Rightarrow> emb_caches \<Rightarrow>
   (MosruHistoryItem option \<times> real) \<times> emb_caches" where
  "best_match_loop env temp_url dzen_title [] best_item best_score st =
     ((best_item, best_score), st)"
| "best_match_loop env temp_url dzen_title (item # items) best_item best_score st =
     (case calculate_similarity_sbert env st temp_url dzen_title item of
        (score, st') \<Rightarrow>
          (if score > best_score
           then best_match_loop env temp_url dzen_title items (Some item) score st'
           else best_match_loop env temp_url dzen_title items best_item best_score st'))"

definition find_best_match ::
  "py_env \<Rightarrow> emb_caches \<Rightarrow> pystr \<Rightarrow> MosruHistoryItem list \<Rightarrow>
   (MosruHistoryItem option \<times> real) \<times> emb_caches" where
  "find_best_match env st dzen_title mosru_items =
     (let temp_url = temp_url_of env dzen_title in
      case best_match_loop env temp_url dzen_title mosru_items None 0 st of
        (res, st') \<Rightarrow>
          (if contains_key (DZEN_EMB_CACHE st') temp_url
           then (case delitem (DZEN_EMB_CACHE st') temp_url of
                   Inl _ \<Rightarrow> (res, st')
                 | Inr c' \<Rightarrow> (res, st'\<lparr>DZEN_EMB_CACHE := c'\<rparr>))
           else (res, st')))"

text \<open>
  The scores the loop computes, one per reference, in order: what the comparisons
  return while the caches evolve as in \<open>best_match_loop\<close>.
\<close>

fun pass_scores ::
  "py_env \<Rightarrow> pystr \<Rightarrow> pystr \<Rightarrow> MosruHistoryItem list \<Rightarrow> emb_caches \<Rightarrow> real list" where
  "pass_scores env temp_url dzen_title [] st = []"
| "pass_scores env temp_url dzen_title (item # items) st =
     (case calculate_similarity_sbert env st temp_url dzen_title item of
        (score, st') \<Rightarrow> score # pass_scores env temp_url dzen_title items st')"

text \<open>
  The contract of the scorer as the specification words it, to compare with the
  code: the cosine similarity with its epsilon guard, the bonus rules in their
  priority order, and the final score.
\<close>

definition spec_cosine :: "real list \<Rightarrow> real list \<Rightarrow> real" where
  "spec_cosine a b =
     (\<Sum>(x, y)\<leftarrow>zip a b. x * y) /
     (sqrt (\<Sum>x\<leftarrow>a. x * x) * sqrt (\<Sum>y\<leftarrow>b. y * y) + 1 / 10 ^ 9)"

definition spec_bonus :: "nat \<Rightarrow> real \<Rightarrow> bool \<Rightarrow> real" where
  "spec_bonus common base_score keyword_cooccurs =
     (if common \<ge> 3 then (if base_score \<ge> 7 / 10 then 10 / 100 else 15 / 100)
      else if keyword_cooccurs then 15 / 100
      else 0)"

definition spec_final_score :: "real \<Rightarrow> real \<Rightarrow> real" where
  "spec_final_score base_score bonus = min (base_score * (1 + bonus)) 1"

section \<open>History records (utils/models.py)\<close>

text \<open>
  \<open>NewsItem\<close>, the item handed to the delivery sink, and \<open>DzenHistoryItem\<close>, the
  record of an accepted aggregator item. The aggregator history is read from JSON:
  \<open>similarity_score\<close> can be a number, \<open>null\<close> (the default of the dataclass) or,
  in a record written by an older version, absent.
\<close>

record NewsItem =
  n_title :: pystr
  n_url :: pystr
  n_source :: pystr
  n_published_date :: "pystr option"
  n_snippet :: "pystr option"
  n_categories :: "pystr list"

datatype json_score = Absent | Null | Score real

record DzenHistoryItem =
  d_url :: pystr
  d_title :: pystr
  d_added_at :: pystr
  mosru_source_url :: "pystr option"
  mosru_title :: "pystr option"
  mosru_snippet :: "pystr option"
  match_type :: "pystr option"
  similarity_score :: json_score
  common_words :: "nat option"
  matched_keywords :: "pystr list"

section \<open>Analyzed URLs (storage/s3.py, lines 54-109)\<close>

definition MAX_ANALYZED_URLS :: nat where
  "MAX_ANALYZED_URLS = 5000"

text \<open>\<open>xs[-n:]\<close> for \<open>n \<ge> 0\<close>: the last \<open>n\<close> elements, and the whole list for \<open>n = 0\<close>.\<close>

definition py_last_n :: "nat \<Rightarrow> 'a list \<Rightarrow> 'a list" where
  "py_last_n n xs = (if n = 0 then xs else drop (length xs - n) xs)"

text \<open>
  \<open>S3Storage.analyzed_urls\<close> is a Python \<open>set\<close>. The functions take the maximum as
  an argument; the module constant is \<open>MAX_ANALYZED_URLS\<close>. The order in which
  \<open>list\<close> iterates the set is \<open>set_order\<close>, a function of the elements of the set;
  in CPython it depends on the hash seed and on the insertions and deletions the
  set has seen as well, never on the age of an element as such, so two sets with
  the same elements need not iterate alike.
\<close>

definition is_url_analyzed :: "pystr set \<Rightarrow> pystr \<Rightarrow> bool" where
  "is_url_analyzed analyzed_urls url = (url \<in> analyzed_urls)"

definition trim_analyzed_urls_if_needed :: "py_env \<Rightarrow> nat \<Rightarrow> pystr set \<Rightarrow> pystr set" where
  "trim_analyzed_urls_if_needed env max_urls analyzed_urls =
     (if card analyzed_urls > max_urls
      then set (py_last_n max_urls (set_order env analyzed_urls))
      else analyzed_urls)"

definition add_analyzed_urls :: "py_env \<Rightarrow> nat \<Rightarrow> pystr list \<Rightarrow> pystr set \<Rightarrow> pystr set" where
  "add_analyzed_urls env max_urls urls analyzed_urls =
     (if urls = [] then analyzed_urls
      else trim_analyzed_urls_if_needed env max_urls (analyzed_urls \<union> set urls))"

section \<open>The aggregator pass (sources/dzen.py, lines 45-222)\<close>

text \<open>What the loop over the cards reads and does not change.\<close>

record dzen_pass_inputs =
  SBERT_SIMILARITY_THRESHOLD :: real
  analyzed_before :: "pystr set"
  dzen_history_urls :: "pystr set"
  recent_mosru :: "MosruHistoryItem list"
  norm_keywords :: "pystr list"
  now_iso :: pystr

text \<open>
  What the loop changes. \<open>dzen_title_map\<close> holds references to the dictionaries of
  \<open>dzen_history_raw\<close>; the rename mutates such a dictionary in place, so the model
  updates the map and the list together. \<open>dzen_history_file\<close> is what
  \<open>save_dzen_history\<close> last wrote.
\<close>

record dzen_pass =
  url_set :: "pystr set"
  dzen_title_map :: "pystr \<Rightarrow> DzenHistoryItem option"
  dzen_history_raw :: "DzenHistoryItem list"
  dzen_history_file :: "DzenHistoryItem list"
  filtered_dzen_news :: "NewsItem list"
  filtered_dzen_history :: "DzenHistoryItem list"
  filtered_out_urls :: "pystr list"
  already_analyzed_count :: nat
  caches :: emb_caches

text \<open>Lines 54-57: the last record of each normalized title wins.\<close>

definition build_title_map :: "py_env \<Rightarrow> DzenHistoryItem list \<Rightarrow> pystr \<Rightarrow> DzenHistoryItem option" where
  "build_title_map env history =
     foldl (\<lambda>m item. m(normalize_text env (d_title item) \<mapsto> item)) Map.empty history"

text \<open>
  Lines 128-140: the tie-break against the recorded claims. \<open>best_score < previous_score\<close>
  raises \<open>TypeError\<close> when the recorded score is \<open>null\<close>; an absent key reads as 0.
\<close>

fun mosru_url_already_used :: "DzenHistoryItem list \<Rightarrow> pystr \<Rightarrow> real \<Rightarrow> py_error + bool" where
  "mosru_url_already_used [] best_url best_score = Inr False"
| "mosru_url_already_used (item # items) best_url best_score =
     (if match_type item = Some (py ''sbert'') \<and> mosru_source_url item = Some best_url
      then (case similarity_score item of
              Null \<Rightarrow> Inl TypeError
            | Absent \<Rightarrow>
                (if best_score < 0 then Inr True
                 else mosru_url_already_used items best_url best_score)
            | Score previous_score \<Rightarrow>
                (if best_score < previous_score then Inr True
                 else mosru_url_already_used items best_url best_score))
      else mosru_url_already_used items best_url best_score)"



text \<open>The source name \<open>'Dzen'\<close> in Cyrillic letters.\<close>

definition dzen_source_name :: pystr where
  "dzen_source_name = [1044, 1079, 1077, 1085]"

definition dzen_news_item :: "dzen_pass_inputs \<Rightarrow> pystr \<Rightarrow> pystr \<Rightarrow> NewsItem" where
  "dzen_news_item inp url title =
     \<lparr>n_title = py_strip title, n_url = url, n_source = dzen_source_name,
      n_published_date = Some (now_iso inp), n_snippet = None, n_categories = []\<rparr>"

text \<open>Lines 146-169: the candidate is accepted as a semantic match.\<close>

definition accept_sbert ::
  "py_env \<Rightarrow> dzen_pass_inputs \<Rightarrow> dzen_pass \<Rightarrow> pystr \<Rightarrow> pystr \<Rightarrow> MosruHistoryItem \<Rightarrow> real \<Rightarrow> dzen_pass" where
  "accept_sbert env inp st url title best_mosru best_score =
     st\<lparr>filtered_dzen_news := filtered_dzen_news st @ [dzen_news_item inp url title],
        filtered_dzen_history := filtered_dzen_history st @
          [\<lparr>d_url = url, d_title = py_strip title, d_added_at = now_iso inp,
            mosru_source_url = Some (m_url best_mosru),
            mosru_title = Some (m_title best_mosru),
            mosru_snippet = Some (m_snippet best_mosru),
            match_type = Some (py ''sbert''),
            similarity_score = Score best_score,
            common_words = Some (count_common_words env title (m_title best_mosru)),
            matched_keywords = []\<rparr>]\<rparr>"

text \<open>Lines 170-199: the keyword fallback.\<close>

definition keyword_fallback :: "py_env \<Rightarrow> dzen_pass_inputs \<Rightarrow> dzen_pass \<Rightarrow> pystr \<Rightarrow> pystr \<Rightarrow> dzen_pass" where
  "keyword_fallback env inp st url title =
     (let title_norm = normalize_text env title;
          matched = filter (\<lambda>kw. str_contains title_norm kw) (norm_keywords inp)
      in if matched \<noteq> []
         then st\<lparr>filtered_dzen_news := filtered_dzen_news st @ [dzen_news_item inp url title],
                 filtered_dzen_history := filtered_dzen_history st @
                   [\<lparr>d_url = url, d_title = py_strip title, d_added_at = now_iso inp,
                     mosru_source_url = None, mosru_title = None, mosru_snippet = None,
                     match_type = Some (py ''keywords''),
                     similarity_score = Null,
                     common_words = None,
                     matched_keywords = take 5 matched\<rparr>]\<rparr>
         else st\<lparr>filtered_out_urls := filtered_out_urls st @ [url]\<rparr>)"

text \<open>Lines 124-199: the matcher, the threshold, the tie-break, the fallback.\<close>

definition match_card ::
  "py_env \<Rightarrow> dzen_pass_inputs \<Rightarrow> dzen_pass \<Rightarrow> pystr \<Rightarrow> pystr \<Rightarrow> py_error + dzen_pass" where
  "match_card env inp st url title =
     (case find_best_match env (caches st) title (recent_mosru inp) of
        ((best_item, best_score), c') \<Rightarrow>
          (let st1 = st\<lparr>caches := c'\<rparr> in
           case best_item of
             None \<Rightarrow> Inr (keyword_fallback env inp st1 url title)
           | Some best_mosru \<Rightarrow>
               (if best_score \<ge> SBERT_SIMILARITY_THRESHOLD inp
                then (case mosru_url_already_used (dzen_history_raw st1) (m_url best_mosru) best_score of
                        Inl e \<Rightarrow> Inl e
                      | Inr used \<Rightarrow>
                          (if used
                           then Inr (st1\<lparr>filtered_out_urls := filtered_out_urls st1 @ [url]\<rparr>)
                           else Inr (accept_sbert env inp st1 url title best_mosru best_score)))
                else Inr (keyword_fallback env inp st1 url title))))"

text \<open>
  Lines 106-119: a title already in the history. When the url differs, the record
  under that title takes the new url and time, every record of the history with that
  normalized title is replaced by it, and the history is saved. The candidate is not
  delivered either way.
\<close>

definition rename_in_place ::
  "py_env \<Rightarrow> dzen_pass_inputs \<Rightarrow> dzen_pass \<Rightarrow> pystr \<Rightarrow> pystr \<Rightarrow> DzenHistoryItem \<Rightarrow> dzen_pass" where
  "rename_in_place env inp st url norm_title old_item =
     (if d_url old_item \<noteq> url
      then (let old_item' = old_item\<lparr>d_url := url, d_added_at := now_iso inp\<rparr>;
                history' = map (\<lambda>i. if normalize_text env (d_title i) \<noteq> norm_title then i
                                     else old_item') (dzen_history_raw st)
            in st\<lparr>dzen_title_map := (dzen_title_map st)(norm_title \<mapsto> old_item'),
                  dzen_history_raw := history',
                  dzen_history_file := history'\<rparr>)
      else st)"

text \<open>Lines 96-199: one card of the page.\<close>

definition process_card ::
  "py_env \<Rightarrow> dzen_pass_inputs \<Rightarrow> dzen_pass \<Rightarrow> pystr \<times> pystr \<Rightarrow> py_error + dzen_pass" where
  "process_card env inp st page_card =
     (case page_card of (url, title) \<Rightarrow>
        if url = [] \<or> title = [] \<or> url \<in> url_set st then Inr st
        else if is_url_analyzed (analyzed_before inp) url
        then Inr (st\<lparr>already_analyzed_count := already_analyzed_count st + 1\<rparr>)
        else (let st1 = st\<lparr>url_set := insert url (url_set st)\<rparr>;
                  norm_title = normalize_text env title
              in case dzen_title_map st1 norm_title of
                   Some old_item \<Rightarrow> Inr (rename_in_place env inp st1 url norm_title old_item)
                 | None \<Rightarrow>
                     (if url \<in> dzen_history_urls inp then Inr st1
                      else match_card env inp st1 url title)))"

text \<open>The loop over the cards: an exception ends the pass.\<close>

fun card_loop ::
  "py_env \<Rightarrow> dzen_pass_inputs \<Rightarrow> dzen_pass \<Rightarrow> (pystr \<times> pystr) list \<Rightarrow> py_error + dzen_pass" where
  "card_loop env inp st [] = Inr st"
| "card_loop env inp st (page_card # cards) =
     (case process_card env inp st page_card of
        Inl e \<Rightarrow> Inl e
      | Inr st' \<Rightarrow> card_loop env inp st' cards)"

text \<open>\<open>normalize_mosru_url\<close> (sources/playwright_parser.py, lines 114-121).\<close>

definition normalize_mosru_url :: "pystr \<Rightarrow> pystr" where
  "normalize_mosru_url url =
     (if url = [] then url
      else (let u = takeWhile (\<lambda>c. c \<noteq> 63) url
            in if u \<noteq> [] \<and> last u = 47 then u else u @ [47]))"

text \<open>
  Lines 85-91: the url of a card, made absolute and cut at the first \<open>?\<close>.
\<close>

definition dzen_card_url :: "pystr \<Rightarrow> pystr" where
  "dzen_card_url href =
     (let url = (if href \<noteq> [] \<and> take 4 href \<noteq> py ''http'' then py ''https://dzen.ru'' @ href
                 else href)
      in if url \<noteq> [] then takeWhile (\<lambda>c. c \<noteq> 63) url else url)"

text \<open>
  What persists between passes: the analyzed URLs, the aggregator history file and
  the embedding caches.
\<close>

record engine_state =
  analyzed_urls :: "pystr set"
  dzen_history_store :: "DzenHistoryItem list"
  emb_store :: emb_caches

text \<open>
  \<open>fetch_dzen_news\<close>, from the cards of the page (\<open>href\<close> and title text of each, at
  most \<open>max_items\<close> of them) to the delivered items and their records. \<open>recent\<close> says
  of an \<open>added_at\<close> that it parses and is at most \<open>MAX_NEWS_AGE_DAYS\<close> days old. The
  urls of the recent portal items are normalized in place, which the caller sees:
  the third component is its \<open>mosru_history\<close> afterwards. The keyword file is read
  without a \<open>try\<close>: when it cannot be read the call raises.
\<close>

definition fetch_dzen_news ::
  "py_env \<Rightarrow> real \<Rightarrow> nat \<Rightarrow> (pystr \<Rightarrow> bool) \<Rightarrow> pystr \<Rightarrow> engine_state \<Rightarrow>
   MosruHistoryItem list \<Rightarrow> pystr set \<Rightarrow> (pystr \<times> pystr) list \<Rightarrow>
   py_error + ((NewsItem list \<times> DzenHistoryItem list) \<times> MosruHistoryItem list \<times> engine_state)" where
  "fetch_dzen_news env threshold max_urls recent now es mosru_history history_urls cards =
     (case keywords_topics env of
        None \<Rightarrow> Inl ValueError
      | Some topics \<Rightarrow>
          (let kws = set_order env (set (map (normalize_text env) topics));
               mosru_history' = map (\<lambda>i. if recent (m_added_at i)
                                            then i\<lparr>m_url := normalize_mosru_url (m_url i)\<rparr>
                                            else i) mosru_history;
               inp = \<lparr>SBERT_SIMILARITY_THRESHOLD = threshold,
                      analyzed_before = analyzed_urls es,
                      dzen_history_urls = history_urls,
                      recent_mosru = filter (\<lambda>i. recent (m_added_at i)) mosru_history',
                      norm_keywords = kws,
                      now_iso = now\<rparr>;
               st0 = \<lparr>url_set = {},
                      dzen_title_map = build_title_map env (dzen_history_store es),
                      dzen_history_raw = dzen_history_store es,
                      dzen_history_file = dzen_history_store es,
                      filtered_dzen_news = [],
                      filtered_dzen_history = [],
                      filtered_out_urls = [],
                      already_analyzed_count = 0,
                      caches = emb_store es\<rparr>
           in case card_loop env inp st0 (map (\<lambda>(href, title). (dzen_card_url href, title)) cards) of
                Inl e \<Rightarrow> Inl e
              | Inr st \<Rightarrow>
                  (let a1 = add_analyzed_urls env max_urls (filtered_out_urls st) (analyzed_urls es);
                       a2 = add_analyzed_urls env max_urls (map n_url (filtered_dzen_news st)) a1
                   in Inr ((filtered_dzen_news st, filtered_dzen_history st), mosru_history',
                           \<lparr>analyzed_urls = a2,
                            dzen_history_store = dzen_history_file st,
                            emb_store = caches st\<rparr>))))"

section \<open>The portal fetcher (sources/playwright_parser.py, sources/mosru.py)\<close>

text \<open>
  The loop of \<open>fetch_mosru_news\<close> over the cards of a page, the same for both page
  layouts: a card is its \<open>href\<close>, title text and snippet text (empty when the element
  is missing). A card whose normalized url is empty or already seen is skipped; a
  card without title is counted as seen but gives no item; the loop ends once
  \<open>max_items\<close> items are collected.
\<close>

definition mosru_card_url :: "pystr \<Rightarrow> pystr" where
  "mosru_card_url href =
     normalize_mosru_url
       (if href \<noteq> [] \<and> take 4 href \<noteq> py ''http'' then py ''https://www.mos.ru'' @ href else href)"

definition mosru_news_item :: "pystr \<Rightarrow> pystr \<Rightarrow> pystr \<Rightarrow> NewsItem" where
  "mosru_news_item url title snippet =
     \<lparr>n_title = py_strip title, n_url = url, n_source = py ''mos.ru'',
      n_published_date = None, n_snippet = Some (py_strip snippet), n_categories = []\<rparr>"

definition mosru_history_item :: "pystr \<Rightarrow> pystr \<Rightarrow> pystr \<Rightarrow> pystr \<Rightarrow> MosruHistoryItem" where
  "mosru_history_item now url title snippet =
     \<lparr>m_url = url, m_title = py_strip title, m_snippet = py_strip snippet,
      m_added_at = now, in_dzen = False\<rparr>"

fun mosru_card_loop ::
  "pystr \<Rightarrow> nat \<Rightarrow> (pystr \<times> pystr \<times> pystr) list \<Rightarrow> pystr set \<Rightarrow>
   NewsItem list \<Rightarrow> MosruHistoryItem list \<Rightarrow> NewsItem list \<times> MosruHistoryItem list" where
  "mosru_card_loop now max_items [] seen news_items history_items = (news_items, history_items)"
| "mosru_card_loop now max_items ((href, title, snippet) # cards) seen news_items history_items =
     (let url = mosru_card_url href
      in if url = [] \<or> url \<in> seen
         then mosru_card_loop now max_items cards seen news_items history_items
         else (let news_items' =
                     (if title \<noteq> [] then news_items @ [mosru_news_item url title snippet]
                      else news_items);
                    history_items' =
                     (if title \<noteq> [] then history_items @ [mosru_history_item now url title snippet]
                      else history_items)
               in if length news_items' \<ge> max_items then (news_items', history_items')
                  else mosru_card_loop now max_items cards (insert url seen)
                         news_items' history_items'))"

text \<open>
  \<open>fetch_mosru_news\<close> of one page: no cards at all when the page cannot be opened or
  its list is not found.
\<close>

definition fetch_mosru_news ::
  "pystr \<Rightarrow> (pystr \<times> pystr \<times> pystr) list option \<Rightarrow> NewsItem list \<times> MosruHistoryItem list" where
  "fetch_mosru_news now page =
     (case page of None \<Rightarrow> ([], []) | Some cards \<Rightarrow> mosru_card_loop now 20 cards {} [] [])"

text \<open>
  \<open>get_all_mosru_news\<close> (sources/mosru.py): the items of the two pages, without the
  repetitions of a url up to trailing slashes; the first item of a url is kept, in
  the order of first appearance (the insertion order of the \<open>dict\<close>).
\<close>

definition rstrip_slash :: "pystr \<Rightarrow> pystr" where
  "rstrip_slash s = rev (dropWhile (\<lambda>c. c = 47) (rev s))"

fun unique_by_url :: "('a \<Rightarrow> pystr) \<Rightarrow> 'a list \<Rightarrow> (pystr \<times> 'a) list \<Rightarrow> (pystr \<times> 'a) list" where
  "unique_by_url url_of [] unique = unique"
| "unique_by_url url_of (item # rest) unique =
     (let norm_url = rstrip_slash (url_of item) @ [47]
      in if norm_url \<in> set (map fst unique) then unique_by_url url_of rest unique
         else unique_by_url url_of rest (unique @ [(norm_url, item)]))"

definition get_all_mosru_news ::
  "pystr \<Rightarrow> pystr \<Rightarrow> (pystr \<times> pystr \<times> pystr) list option \<Rightarrow> (pystr \<times> pystr \<times> pystr) list option \<Rightarrow>
   NewsItem list \<times> MosruHistoryItem list" where
  "get_all_mosru_news now1 now2 page1 page2 =
     (case fetch_mosru_news now1 page1 of (news1, history1) \<Rightarrow>
      case fetch_mosru_news now2 page2 of (news2, history2) \<Rightarrow>
        (map snd (unique_by_url n_url (news1 @ news2) []),
         map snd (unique_by_url m_url (history1 @ history2) [])))"

section \<open>History reconciler (scheduler.py, lines 128-169)\<close>

record reconciled =
  new_mosru_news :: "NewsItem list"
  new_dzen_news :: "NewsItem list"
  new_mosru_history :: "MosruHistoryItem list"
  new_dzen_history :: "DzenHistoryItem list"
  mosru_history_out :: "MosruHistoryItem list"
  dzen_history_out :: "DzenHistoryItem list"
  mosru_saved :: bool
  dzen_saved :: bool

text \<open>
  The reconciliation of \<open>fetch_and_send_news\<close>, from the loaded histories and what the
  two fetches return. Between the portal part and the aggregator part the code calls
  \<open>fetch_dzen_news\<close> on its own \<open>mosru_history\<close> list, which normalizes the urls of the
  recent items in place; \<open>recent\<close> is the predicate of that call.
\<close>

definition reconcile ::
  "(pystr \<Rightarrow> bool) \<Rightarrow> MosruHistoryItem list \<Rightarrow> DzenHistoryItem list \<Rightarrow>
   NewsItem list \<Rightarrow> MosruHistoryItem list \<Rightarrow> NewsItem list \<Rightarrow> DzenHistoryItem list \<Rightarrow> reconciled" where
  "reconcile recent mosru_history dzen_history mosru_news mosru_new_items dzen_news dzen_new_items =
     (let mosru_urls = set (map m_url mosru_history);
          dzen_urls = set (map d_url dzen_history);
          new_mosru_news_l = filter (\<lambda>news. n_url news \<notin> mosru_urls) mosru_news;
          new_mosru_history_l = filter (\<lambda>item. m_url item \<notin> mosru_urls) mosru_new_items;
          mosru_history1 = mosru_history @ new_mosru_history_l;
          mosru_history2 = map (\<lambda>i. if recent (m_added_at i)
                                      then i\<lparr>m_url := normalize_mosru_url (m_url i)\<rparr>
                                      else i) mosru_history1;
          new_dzen_news_l = filter (\<lambda>news. n_url news \<notin> dzen_urls) dzen_news;
          dzen_mosru_urls = {u. u \<noteq> [] \<and> Some u \<in> set (map mosru_source_url dzen_new_items)};
          mosru_updated = list_ex (\<lambda>item. m_url item \<in> dzen_mosru_urls \<and> \<not> in_dzen item) mosru_history2;
          mosru_history3 = map (\<lambda>item. if m_url item \<in> dzen_mosru_urls \<and> \<not> in_dzen item
                                         then item\<lparr>in_dzen := True\<rparr> else item) mosru_history2;
          new_dzen_history_l = filter (\<lambda>item. d_url item \<notin> dzen_urls) dzen_new_items
      in \<lparr>new_mosru_news = new_mosru_news_l,
          new_dzen_news = new_dzen_news_l,
          new_mosru_history = new_mosru_history_l,
          new_dzen_history = new_dzen_history_l,
          mosru_history_out = mosru_history3,
          dzen_history_out = dzen_history @ new_dzen_history_l,
          mosru_saved = (new_mosru_history_l \<noteq> [] \<or> mosru_updated),
          dzen_saved = (new_dzen_history_l \<noteq> [])\<rparr>)"

text \<open>The portal history file after a run: rewritten only when the run saved it.\<close>

definition persisted_mosru :: "reconciled \<Rightarrow> MosruHistoryItem list \<Rightarrow> MosruHistoryItem list" where
  "persisted_mosru r loaded = (if mosru_saved r then mosru_history_out r else loaded)"

text \<open>
  Two readings of a pass state used to state the claims: the semantic matches among
  the records of the pass, and that a recorded score, when there is one, lies in
  \<open>[0, 1]\<close>.
\<close>

definition semantic_matches :: "dzen_pass \<Rightarrow> DzenHistoryItem list" where
  "semantic_matches st =
     filter (\<lambda>r. match_type r = Some (py ''sbert'')) (filtered_dzen_history st)"

fun score_in_unit :: "json_score \<Rightarrow> bool" where
  "score_in_unit (Score s) = (0 \<le> s \<and> s \<le> 1)"
| "score_in_unit Null = True"
| "score_in_unit Absent = True"

text \<open>
  The records of a pass are well scored when every score that is a number lies in
  \<open>[0, 1]\<close> and every semantic match carries a number.
\<close>

fun is_number :: "json_score \<Rightarrow> bool" where
  "is_number (Score s) = True"
| "is_number Null = False"
| "is_number Absent = False"

definition recorded_scores_ok :: "DzenHistoryItem list \<Rightarrow> bool" where
  "recorded_scores_ok recs =
     list_all (\<lambda>r. score_in_unit (similarity_score r) \<and>
                    (match_type r = Some (py ''sbert'') \<longrightarrow> is_number (similarity_score r))) recs"

section \<open>Concrete inputs for the examples\<close>

text \<open>
  A small world on which the definitions are run: titles of one letter, an
  embedding model that knows a few texts and raises on every other one, no
  keywords, and an iteration order of sets that sorts them.
\<close>

definition demo_lower :: "pystr \<Rightarrow> pystr" where
  "demo_lower s = map (\<lambda>c. if 65 \<le> c \<and> c \<le> 90 then c + 32 else c) s"

definition demo_embedding :: "pystr \<Rightarrow> real list option" where
  "demo_embedding t =
     (if t = py ''a'' then Some [1, 0]
      else if t = py ''b'' then Some [4, 3]
      else if t = py ''m'' then Some [1, 0]
      else if t = py ''n'' then Some [- 1, 0]
      else if t = py ''w'' then Some [1, 0, 0]
      else if t = py ''clinic opens moscow'' then Some [3, 4]
      else if t = py ''moscow clinic opens'' then Some [1, 0]
      else None)"

definition demo_env :: py_env where
  "demo_env = \<lparr>str_lower = demo_lower,
               get_sentence_embedding = demo_embedding,
               keywords_topics = Some [],
               str_hash = (\<lambda>s. 0),
               timestamp_now = 0,
               set_order = sorted_list_of_set\<rparr>"

definition demo_caches :: emb_caches where
  "demo_caches = \<lparr>DZEN_EMB_CACHE = LRUCache_init 1000, MOSRU_EMB_CACHE = LRUCache_init 1000\<rparr>"

definition demo_item :: "string \<Rightarrow> string \<Rightarrow> MosruHistoryItem" where
  "demo_item u t = \<lparr>m_url = py u, m_title = py t, m_snippet = [],
                    m_added_at = py ''2025-05-01T10:00:00'', in_dzen = False\<rparr>"

definition demo_state :: engine_state where
  "demo_state = \<lparr>analyzed_urls = {}, dzen_history_store = [], emb_store = demo_caches\<rparr>"

text \<open>A recorded semantic match that claims the portal item \<open>mos.ru/m/\<close> with score 0.85.\<close>

definition demo_prior_claim :: DzenHistoryItem where
  "demo_prior_claim =
     \<lparr>d_url = py ''https://dzen.ru/p'', d_title = py ''p'', d_added_at = py ''2025-05-01T09:00:00'',
      mosru_source_url = Some (py ''mos.ru/m/''), mosru_title = Some (py ''m''),
      mosru_snippet = Some [], match_type = Some (py ''sbert''),
      similarity_score = Score (85 / 100), common_words = Some 0, matched_keywords = []\<rparr>"

text \<open>
  One pass of \<open>fetch_dzen_news\<close> with the default threshold 0.79 over the portal
  history \<open>[mos.ru/m/]\<close>, from a given persisted state and the cards of the page; and
  the records a pass returns (none when it raises).
\<close>

definition demo_pass ::
  "engine_state \<Rightarrow> (pystr \<times> pystr) list \<Rightarrow>
   py_error + ((NewsItem list \<times> DzenHistoryItem list) \<times> MosruHistoryItem list \<times> engine_state)" where
  "demo_pass es cards =
     fetch_dzen_news demo_env (79 / 100) MAX_ANALYZED_URLS (\<lambda>added_at. True)
       (py ''2025-05-02T12:00:00'') es [demo_item ''mos.ru/m/'' ''m''] {} cards"

definition accepted_records ::
  "py_error + ((NewsItem list \<times> DzenHistoryItem list) \<times> MosruHistoryItem list \<times> engine_state) \<Rightarrow>
   DzenHistoryItem list" where
  "accepted_records res = (case res of Inl e \<Rightarrow> [] | Inr ((news, recs), rest) \<Rightarrow> recs)"

definition delivered_items ::
  "py_error + ((NewsItem list \<times> DzenHistoryItem list) \<times> MosruHistoryItem list \<times> engine_state) \<Rightarrow>
   NewsItem list" where
  "delivered_items res = (case res of Inl e \<Rightarrow> [] | Inr ((news, recs), rest) \<Rightarrow> news)"

text \<open>The inputs and the initial state of that pass, for a given aggregator history.\<close>

definition demo_inputs :: dzen_pass_inputs where
  "demo_inputs =
     \<lparr>SBERT_SIMILARITY_THRESHOLD = 79 / 100, analyzed_before = {}, dzen_history_urls = {},
      recent_mosru = [demo_item ''mos.ru/m/'' ''m''], norm_keywords = [],
      now_iso = py ''2025-05-02T12:00:00''\<rparr>"

definition demo_pass_state :: "DzenHistoryItem list \<Rightarrow> dzen_pass" where
  "demo_pass_state history =
     \<lparr>url_set = {}, dzen_title_map = build_title_map demo_env history,
      dzen_history_raw = history, dzen_history_file = history,
      filtered_dzen_news = [], filtered_dzen_history = [], filtered_out_urls = [],
      already_analyzed_count = 0, caches = demo_caches\<rparr>"

text \<open>The caches after a comparison with \<open>mos.ru/m/\<close>: its embeddings are cached, the
  temporary candidate entry is deleted again.\<close>

definition demo_caches_after :: emb_caches where
  "demo_caches_after =
     \<lparr>DZEN_EMB_CACHE = LRUCache_init 1000,
      MOSRU_EMB_CACHE =
        \<lparr>capacity = 1000,
         entries = [(py ''mos.ru/m/'',
                     \<lparr>ms_embeddings = \<lparr>emb_title = [1, 0], emb_title_snippet = [1, 0],
                                       emb_snippet = [0, 0]\<rparr>,
                      ms_timestamp = 0\<rparr>)]\<rparr>\<rparr>"

text \<open>
  Two recorded items whose titles \<open>x\<close> and \<open>X\<close> normalize to the same text: a semantic
  match under one url, a keyword match under another.
\<close>

definition demo_record_x1 :: DzenHistoryItem where
  "demo_record_x1 =
     \<lparr>d_url = py ''https://dzen.ru/A'', d_title = py ''x'', d_added_at = py ''2025-05-01T09:00:00'',
      mosru_source_url = Some (py ''mos.ru/m/''), mosru_title = Some (py ''m''),
      mosru_snippet = Some [], match_type = Some (py ''sbert''),
      similarity_score = Score (85 / 100), common_words = Some 0, matched_keywords = []\<rparr>"

definition demo_record_x2 :: DzenHistoryItem where
  "demo_record_x2 =
     \<lparr>d_url = py ''https://dzen.ru/B'', d_title = py ''X'', d_added_at = py ''2025-05-01T09:30:00'',
      mosru_source_url = None, mosru_title = None, mosru_snippet = None,
      match_type = Some (py ''keywords''), similarity_score = Null, common_words = None,
      matched_keywords = [py ''x'']\<rparr>"

text \<open>The aggregator history after one step of the pass (none when the step raises).\<close>

definition history_after :: "py_error + dzen_pass \<Rightarrow> DzenHistoryItem list option" where
  "history_after res = (case res of Inl e \<Rightarrow> None | Inr st \<Rightarrow> Some (dzen_history_raw st))"

text \<open>
  An analyzed set at its maximum: the 5000 urls \<open>https://dzen.ru/a/1\<close> to
  \<open>https://dzen.ru/a/5000\<close>.
\<close>

definition demo_url :: "nat \<Rightarrow> pystr" where
  "demo_url n = py ''https://dzen.ru/a/'' @ nat_digits n"

definition demo_analyzed :: "pystr set" where
  "demo_analyzed = demo_url ` {1..5000}"

text \<open>
  The aggregator history file after a run, and a second run of the reconciliation
  on the files the first run left, with the same fetched lists (\<open>recent'\<close> is the age
  test at the time of the second run).
\<close>

definition persisted_dzen :: "reconciled \<Rightarrow> DzenHistoryItem list \<Rightarrow> DzenHistoryItem list" where
  "persisted_dzen r loaded = (if dzen_saved r then dzen_history_out r else loaded)"

definition run_twice ::
  "(pystr \<Rightarrow> bool) \<Rightarrow> (pystr \<Rightarrow> bool) \<Rightarrow> MosruHistoryItem list \<Rightarrow> DzenHistoryItem list \<Rightarrow>
   NewsItem list \<Rightarrow> MosruHistoryItem list \<Rightarrow> NewsItem list \<Rightarrow> DzenHistoryItem list \<Rightarrow> reconciled" where
  "run_twice recent recent' mosru_history dzen_history mosru_news mosru_new_items dzen_news dzen_new_items =
     (let r1 = reconcile recent mosru_history dzen_history mosru_news mosru_new_items
                 dzen_news dzen_new_items
      in reconcile recent' (persisted_mosru r1 mosru_history) (persisted_dzen r1 dzen_history)
           mosru_news mosru_new_items dzen_news dzen_new_items)"

text \<open>
  A run of the reconciliation: the portal page shows two cards, the first already in
  the portal history; the aggregator pass accepts one card.
\<close>

definition demo_portal_fetch :: "NewsItem list \<times> MosruHistoryItem list" where
  "demo_portal_fetch =
     get_all_mosru_news (py ''2025-05-02T12:00:00'') (py ''2025-05-02T12:00:05'')
       (Some [(py ''/news/item/1/'', py ''m'', []), (py ''/news/item/2?from=main'', py ''n'', [])])
       None"

definition demo_portal_history :: "MosruHistoryItem list" where
  "demo_portal_history = [demo_item ''https://www.mos.ru/news/item/1/'' ''m'']"

definition demo_dzen_fetch ::
  "py_error + ((NewsItem list \<times> DzenHistoryItem list) \<times> MosruHistoryItem list \<times> engine_state)" where
  "demo_dzen_fetch = demo_pass demo_state [(py ''https://dzen.ru/b'', py ''b'')]"


text \<open>The aggregator history file as a pass leaves it (none when the pass raises).\<close>

definition saved_dzen_history ::
  "py_error + ((NewsItem list \<times> DzenHistoryItem list) \<times> MosruHistoryItem list \<times> engine_state) \<Rightarrow>
   DzenHistoryItem list option" where
  "saved_dzen_history res =
     (case res of Inl e \<Rightarrow> None | Inr (fetched, mosru, es) \<Rightarrow> Some (dzen_history_store es))"

section \<open>Properties of the embedding cache\<close>

lemma map_fst_filter_neq:
  "map fst (filter (\<lambda>p. fst p \<noteq> k) es) = removeAll k (map fst es)"
  by (induction es) auto

lemma length_removeAll_distinct:
  "distinct xs \<Longrightarrow> k \<in> set xs \<Longrightarrow> Suc (length (removeAll k xs)) = length xs"
  by (induction xs) (auto simp: removeAll_id)

lemma od_setitem_keys_absent:
  "k \<notin> set (map fst es) \<Longrightarrow> map fst (od_setitem es k v) = map fst es @ [k]"
  by (simp add: od_setitem_def)

lemma od_setitem_keys_present:
  "k \<in> set (map fst es) \<Longrightarrow> map fst (od_setitem es k v) = map fst es"
  by (induction es) (auto simp: od_setitem_def)

lemma move_to_end_keys:
  "k \<in> set (map fst es) \<Longrightarrow>
   \<exists>es'. move_to_end es k = Inr es' \<and> map fst es' = removeAll k (map fst es) @ [k]"
proof -
  assume "k \<in> set (map fst es)"
  then obtain v where "map_of es k = Some v"
    by (metis map_of_eq_None_iff not_Some_eq set_map)
  then show ?thesis
    by (simp add: move_to_end_def map_fst_filter_neq)
qed

text \<open>The key order after a store, case by case.\<close>

lemma setitem_keys_present:
  assumes "lru_inv c" and "contains_key c k"
  shows "cache_keys (setitem c k v) = removeAll k (cache_keys c) @ [k]"
proof -
  from assms(2) have kin: "k \<in> set (map fst (entries c))"
    by (simp add: contains_key_def cache_keys_def)
  from move_to_end_keys[OF kin]
  obtain es' where mv: "move_to_end (entries c) k = Inr es'"
    and ks: "map fst es' = removeAll k (map fst (entries c)) @ [k]"
    by (elim exE conjE)
  have kin': "k \<in> set (map fst es')" using ks by simp
  have ks2: "map fst (od_setitem es' k v) = removeAll k (map fst (entries c)) @ [k]"
    using od_setitem_keys_present[OF kin'] ks by simp
  have "length (map fst (od_setitem es' k v)) = length (entries c)"
    using ks2 length_removeAll_distinct[of "map fst (entries c)" k] assms(1) kin
    by (simp add: lru_inv_def cache_keys_def)
  then have len: "length (od_setitem es' k v) = length (entries c)" by simp
  have "\<not> int (length (od_setitem es' k v)) > capacity c"
    using len assms(1) by (simp add: lru_inv_def cache_len_def)
  then show ?thesis
    using mv assms(2) ks2 by (simp add: setitem_def Let_def cache_keys_def)
qed

lemma setitem_keys_absent_room:
  assumes "\<not> contains_key c k" and "cache_len c < capacity c"
  shows "entries (setitem c k v) = entries c @ [(k, v)]"
  using assms
  by (simp add: setitem_def Let_def contains_key_def cache_keys_def cache_len_def od_setitem_def)

lemma setitem_keys_absent_full:
  assumes "\<not> contains_key c k" and "cache_len c = capacity c" and "distinct (cache_keys c)"
  shows "entries (setitem c k v) = tl (entries c @ [(k, v)])"
proof (cases "entries c")
  case Nil
  then show ?thesis using assms
    by (simp add: setitem_def Let_def contains_key_def cache_keys_def cache_len_def
        od_setitem_def od_delitem_def)
next
  case (Cons p ps)
  have nk: "fst p \<noteq> k" using assms(1) Cons by (auto simp: contains_key_def cache_keys_def)
  have np: "fst p \<notin> fst ` set ps" using assms(3) Cons by (auto simp: cache_keys_def)
  have "filter (\<lambda>q. fst q \<noteq> fst p) ps = ps"
    using np by (auto simp: filter_id_conv image_iff)
  then show ?thesis using assms Cons nk
    by (simp add: setitem_def Let_def contains_key_def cache_keys_def cache_len_def
        od_setitem_def od_delitem_def)
qed

lemma setitem_capacity [simp]: "capacity (setitem c k v) = capacity c"
  by (simp add: setitem_def Let_def split: list.splits sum.splits)

lemma setitem_inv:
  assumes "lru_inv c"
  shows "lru_inv (setitem c k v)"
proof (cases "contains_key c k")
  case True
  have ks: "cache_keys (setitem c k v) = removeAll k (cache_keys c) @ [k]"
    using setitem_keys_present[OF assms True] .
  have "k \<in> set (cache_keys c)" using True by (simp add: contains_key_def)
  then have "Suc (length (removeAll k (cache_keys c))) = length (cache_keys c)"
    using assms length_removeAll_distinct by (auto simp: lru_inv_def)
  then have "length (cache_keys (setitem c k v)) = length (cache_keys c)"
    using ks by simp
  then have "cache_len (setitem c k v) = cache_len c"
    by (simp add: cache_len_def cache_keys_def)
  moreover have "distinct (cache_keys (setitem c k v))"
    using ks assms by (simp add: lru_inv_def distinct_removeAll)
  ultimately show ?thesis using assms by (simp add: lru_inv_def)
next
  case False
  have d: "distinct (cache_keys c)" using assms by (simp add: lru_inv_def)
  have nk: "k \<notin> set (cache_keys c)" using False by (simp add: contains_key_def)
  have "cache_len c \<le> capacity c" using assms by (simp add: lru_inv_def)
  then consider (room) "cache_len c < capacity c" | (full) "cache_len c = capacity c"
    by linarith
  then show ?thesis
  proof cases
    case room
    have "entries (setitem c k v) = entries c @ [(k, v)]"
      using setitem_keys_absent_room[OF False room] .
    then show ?thesis using d nk room
      by (simp add: lru_inv_def cache_keys_def cache_len_def)
  next
    case full
    have e: "entries (setitem c k v) = tl (entries c @ [(k, v)])"
      using setitem_keys_absent_full[OF False full d] .
    have "distinct (map fst (entries c @ [(k, v)]))"
      using d nk by (simp add: cache_keys_def)
    then have "distinct (map fst (tl (entries c @ [(k, v)])))"
      by (simp add: distinct_tl map_tl)
    then show ?thesis using e full
      by (simp add: lru_inv_def cache_keys_def cache_len_def)
  qed
qed


lemma setitem_absent_drop:
  assumes "lru_inv c" and "\<not> contains_key c k"
  shows "entries (setitem c k v) =
         drop (Suc (length (entries c)) - nat (capacity c)) (entries c @ [(k, v)])"
proof -
  have le: "cache_len c \<le> capacity c" and d: "distinct (cache_keys c)"
    using assms(1) by (simp_all add: lru_inv_def)
  from le consider (room) "cache_len c < capacity c" | (full) "cache_len c = capacity c"
    by linarith
  then show ?thesis
  proof cases
    case room
    then have "Suc (length (entries c)) - nat (capacity c) = 0"
      by (simp add: cache_len_def)
    then show ?thesis using setitem_keys_absent_room[OF assms(2) room] by simp
  next
    case full
    then have d1: "Suc (length (entries c)) - nat (capacity c) = Suc 0"
      by (simp add: cache_len_def)
    have "drop (Suc 0) (entries c @ [(k, v)]) = tl (entries c @ [(k, v)])"
      by (simp only: drop_Suc drop_0)
    then show ?thesis using setitem_keys_absent_full[OF assms(2) full d]
      by (simp only: d1)
  qed
qed

lemma drop_append_le: "n \<le> length xs \<Longrightarrow> drop n (xs @ ys) = drop n xs @ ys"
  by simp

lemma put_all_entries:
  "lru_inv c \<Longrightarrow> distinct (map fst kvs) \<Longrightarrow> set (map fst kvs) \<inter> set (cache_keys c) = {} \<Longrightarrow>
   entries (put_all c kvs) =
     drop (length (entries c) + length kvs - nat (capacity c)) (entries c @ kvs)"
proof (induction kvs arbitrary: c)
  case Nil
  then have "length (entries c) \<le> nat (capacity c)"
    unfolding lru_inv_def cache_len_def by linarith
  then show ?case by (simp add: put_all_def)
next
  case (Cons kv kvs)
  obtain k v where kv: "kv = (k, v)" by (cases kv)
  let ?c = "setitem c k v"
  let ?d = "Suc (length (entries c)) - nat (capacity c)"
  have absent: "\<not> contains_key c k"
    using Cons.prems(3) kv by (auto simp: contains_key_def)
  have e: "entries ?c = drop ?d (entries c @ [(k, v)])"
    using setitem_absent_drop[OF Cons.prems(1) absent] .
  have inv': "lru_inv ?c" using setitem_inv[OF Cons.prems(1)] .
  have dle: "?d \<le> length (entries c @ [(k, v)])" by simp
  have keys': "set (cache_keys ?c) \<subseteq> insert k (set (cache_keys c))"
    using e set_drop_subset[of ?d "entries c @ [(k, v)]"]
    by (auto simp: cache_keys_def)
  have disj: "set (map fst kvs) \<inter> set (cache_keys ?c) = {}"
    using keys' Cons.prems(2,3) kv by auto
  have dist: "distinct (map fst kvs)" using Cons.prems(2) by simp
  have IH: "entries (put_all ?c kvs) =
      drop (length (entries ?c) + length kvs - nat (capacity ?c)) (entries ?c @ kvs)"
    using Cons.IH[OF inv' dist disj] .
  have len': "length (entries ?c) = Suc (length (entries c)) - ?d"
    using e by simp
  have "entries ?c @ kvs = drop ?d (entries c @ [(k, v)]) @ kvs"
    by (simp only: e)
  also have "\<dots> = drop ?d ((entries c @ [(k, v)]) @ kvs)"
    by (rule drop_append_le[OF dle, symmetric])
  also have "\<dots> = drop ?d (entries c @ kv # kvs)"
    by (simp only: kv append_assoc append_Cons append_Nil)
  finally have app: "entries ?c @ kvs = drop ?d (entries c @ kv # kvs)" .
  have le: "length (entries c) \<le> nat (capacity c)"
    using Cons.prems(1) unfolding lru_inv_def cache_len_def by linarith
  have arith: "(length (entries ?c) + length kvs - nat (capacity c)) + ?d =
      length (entries c) + length (kv # kvs) - nat (capacity c)"
  proof (cases "length (entries c) < nat (capacity c)")
    case True
    then show ?thesis using len' by simp
  next
    case False
    then have "length (entries c) = nat (capacity c)" using le by simp
    then show ?thesis using len' by simp
  qed
  have "entries (put_all c (kv # kvs)) = entries (put_all ?c kvs)"
    by (simp add: put_all_def kv)
  also have "\<dots> = drop (length (entries ?c) + length kvs - nat (capacity c))
                     (drop ?d (entries c @ kv # kvs))"
    using IH app by simp
  also have "\<dots> = drop (length (entries c) + length (kv # kvs) - nat (capacity c))
                     (entries c @ kv # kvs)"
    using arith by (simp only: drop_drop)
  finally show ?case .
qed

lemma LRUCache_init_inv: "0 \<le> cap \<Longrightarrow> lru_inv (LRUCache_init cap)"
  by (simp add: lru_inv_def LRUCache_init_def cache_keys_def cache_len_def)

lemma map_of_moved: "map_of (filter (\<lambda>p. fst p \<noteq> k) es @ [(k, v)]) k = Some v"
  by (induction es) auto

lemma getitem_present:
  assumes "lru_inv c" and "contains_key c k"
  shows "\<exists>v c'. getitem c k = Inr (v, c') \<and> map_of (entries c) k = Some v \<and>
           cache_keys c' = removeAll k (cache_keys c) @ [k] \<and> capacity c' = capacity c"
proof -
  from assms(2) have kin: "k \<in> set (map fst (entries c))"
    by (simp add: contains_key_def cache_keys_def)
  then obtain v where v: "map_of (entries c) k = Some v"
    by (metis map_of_eq_None_iff not_Some_eq set_map)
  have mv: "move_to_end (entries c) k = Inr (filter (\<lambda>p. fst p \<noteq> k) (entries c) @ [(k, v)])"
    using v by (simp add: move_to_end_def)
  have "map_of (filter (\<lambda>p. fst p \<noteq> k) (entries c) @ [(k, v)]) k = Some v"
    by (rule map_of_moved)
  then show ?thesis
    using mv v assms(2)
    by (simp add: getitem_def cache_keys_def map_fst_filter_neq)
qed

lemma getitem_inv:
  assumes "lru_inv c" and "getitem c k = Inr (v, c')"
  shows "lru_inv c'"
proof -
  have ck: "contains_key c k"
    using assms(2) by (simp add: getitem_def split: if_splits)
  from getitem_present[OF assms(1) ck] assms(2)
  have ks: "cache_keys c' = removeAll k (cache_keys c) @ [k]" and cap: "capacity c' = capacity c"
    by auto
  have "k \<in> set (cache_keys c)" using ck by (simp add: contains_key_def)
  then have "Suc (length (removeAll k (cache_keys c))) = length (cache_keys c)"
    using assms(1) length_removeAll_distinct by (auto simp: lru_inv_def)
  then have "length (cache_keys c') = length (cache_keys c)" using ks by simp
  then have "cache_len c' = cache_len c" by (simp add: cache_len_def cache_keys_def)
  moreover have "distinct (cache_keys c')"
    using ks assms(1) by (simp add: lru_inv_def distinct_removeAll)
  ultimately show ?thesis using assms(1) cap by (simp add: lru_inv_def)
qed

lemma delitem_inv:
  assumes "lru_inv c" and "delitem c k = Inr c'"
  shows "lru_inv c'"
proof -
  have e: "entries c' = filter (\<lambda>p. fst p \<noteq> k) (entries c)" and cap: "capacity c' = capacity c"
    using assms(2) by (auto simp: delitem_def od_delitem_def split: if_splits)
  have "length (entries c') \<le> length (entries c)" using e by simp
  moreover have "distinct (cache_keys c')"
    using e assms(1) by (simp add: cache_keys_def map_fst_filter_neq lru_inv_def distinct_removeAll)
  ultimately show ?thesis using assms(1) cap by (simp add: lru_inv_def cache_len_def)
qed

lemma apply_op_inv: "lru_inv c \<Longrightarrow> lru_inv (apply_op c x)"
proof (cases x)
  case (Put k v)
  assume "lru_inv c"
  then show ?thesis using Put setitem_inv by simp
next
  case (Get k)
  assume "lru_inv c"
  then show ?thesis using Get getitem_inv by (auto split: sum.splits)
next
  case (Del k)
  assume "lru_inv c"
  then show ?thesis using Del delitem_inv by (auto split: sum.splits)
qed

lemma run_ops_inv: "lru_inv c \<Longrightarrow> lru_inv (run_ops c ops)"
  unfolding run_ops_def by (induction ops arbitrary: c) (simp_all add: apply_op_inv)

lemma apply_op_capacity: "capacity (apply_op c x) = capacity c"
  by (cases x) (auto simp: getitem_def delitem_def split: sum.splits if_splits option.splits)

lemma run_ops_capacity: "capacity (run_ops c ops) = capacity c"
  unfolding run_ops_def by (induction ops arbitrary: c) (simp_all add: apply_op_capacity)

text \<open>
  C4. The embedding cache stays within its configured capacity. With a capacity
  \<open>cap \<ge> 0\<close>: after any sequence of stores, reads and deletions on an empty cache the
  size is at most \<open>cap\<close>; after storing \<open>cap + n\<close> distinct keys into an empty cache the
  cache holds exactly the last \<open>cap\<close> of them, in order, so its size is \<open>cap\<close> and the
  \<open>n\<close> least recently touched keys are the ones evicted; a store to a present key and a
  read of a present key both move the key to the most-recently-used end; and a store
  of a new key into a full cache evicts the key at the least-recently-used end.
\<close>

theorem LRUCache_capacity_and_eviction:
  assumes "0 \<le> cap" and "distinct (map fst kvs)" and "length kvs = nat cap + n"
    and "lru_inv c" and "contains_key c k"
    and "lru_inv c2" and "\<not> contains_key c2 k2" and "cache_len c2 = capacity c2"
    and "0 < capacity c2"
  shows "cache_len (run_ops (LRUCache_init cap) ops) \<le> cap \<and>
         entries (put_all (LRUCache_init cap) kvs) = drop n kvs \<and>
         cache_len (put_all (LRUCache_init cap) kvs) = cap \<and>
         cache_keys (setitem c k v) = removeAll k (cache_keys c) @ [k] \<and>
         (\<exists>w c'. getitem c k = Inr (w, c') \<and> map_of (entries c) k = Some w \<and>
                  cache_keys c' = removeAll k (cache_keys c) @ [k]) \<and>
         cache_keys (setitem c2 k2 v2) = tl (cache_keys c2) @ [k2]"
proof -
  have "lru_inv (run_ops (LRUCache_init cap) ops)"
    using run_ops_inv[OF LRUCache_init_inv[OF assms(1)]] .
  then have p1: "cache_len (run_ops (LRUCache_init cap) ops) \<le> cap"
    by (simp add: lru_inv_def run_ops_capacity LRUCache_init_def)
  have p2: "entries (put_all (LRUCache_init cap) kvs) = drop n kvs"
    using put_all_entries[OF LRUCache_init_inv[OF assms(1)] assms(2)] assms(3)
    by (simp add: LRUCache_init_def cache_keys_def)
  have p3: "cache_len (put_all (LRUCache_init cap) kvs) = cap"
    using p2 assms(1,3) by (simp add: cache_len_def)
  have p4: "cache_keys (setitem c k v) = removeAll k (cache_keys c) @ [k]"
    using setitem_keys_present[OF assms(4,5)] .
  have p5: "\<exists>w c'. getitem c k = Inr (w, c') \<and> map_of (entries c) k = Some w \<and>
                  cache_keys c' = removeAll k (cache_keys c) @ [k]"
    using getitem_present[OF assms(4,5)] by blast
  have d2: "distinct (cache_keys c2)" using assms(6) by (simp add: lru_inv_def)
  have ne: "entries c2 \<noteq> []" using assms(8,9) by (auto simp: cache_len_def)
  have "entries (setitem c2 k2 v2) = tl (entries c2 @ [(k2, v2)])"
    using setitem_keys_absent_full[OF assms(7,8) d2] .
  then have p6: "cache_keys (setitem c2 k2 v2) = tl (cache_keys c2) @ [k2]"
    using ne by (simp add: cache_keys_def map_tl)
  from p1 p2 p3 p4 p5 p6 show ?thesis by blast
qed

theorem LRUCache_capacity_and_eviction_witness:
  "cache_len (run_ops (LRUCache_init 2)
       [Put (py ''a'') (1::nat), Put (py ''b'') 2, Get (py ''a''), Put (py ''c'') 3]) \<le> 2 \<and>
   entries (put_all (LRUCache_init 2) [(py ''a'', 1::nat), (py ''b'', 2), (py ''c'', 3)])
     = [(py ''b'', 2), (py ''c'', 3)] \<and>
   cache_len (put_all (LRUCache_init 2) [(py ''a'', 1::nat), (py ''b'', 2), (py ''c'', 3)]) = 2 \<and>
   cache_keys (setitem \<lparr>capacity = 2, entries = [(py ''a'', 1::nat), (py ''b'', 2)]\<rparr> (py ''a'') 7)
     = [py ''b'', py ''a''] \<and>
   (\<exists>c'. getitem \<lparr>capacity = 2, entries = [(py ''a'', 1::nat), (py ''b'', 2)]\<rparr> (py ''a'')
            = Inr (1, c') \<and> cache_keys c' = [py ''b'', py ''a'']) \<and>
   cache_keys (setitem \<lparr>capacity = 2, entries = [(py ''a'', 1::nat), (py ''b'', 2)]\<rparr> (py ''c'') 3)
     = [py ''b'', py ''c'']"
proof -
  let ?c = "\<lparr>capacity = 2, entries = [(py ''a'', 1::nat), (py ''b'', 2)]\<rparr>"
  let ?kvs = "[(py ''a'', 1::nat), (py ''b'', 2), (py ''c'', 3)]"
  have h1: "(0::int) \<le> 2" by simp
  have h2: "distinct (map fst ?kvs)" by simp
  have h3: "length ?kvs = nat 2 + 1" by simp
  have h4: "lru_inv ?c" by (simp add: lru_inv_def cache_keys_def cache_len_def)
  have h5: "contains_key ?c (py ''a'')" by (simp add: contains_key_def cache_keys_def)
  have h7: "\<not> contains_key ?c (py ''c'')" by (simp add: contains_key_def cache_keys_def)
  have h8: "cache_len ?c = capacity ?c" by (simp add: cache_len_def)
  have h9: "0 < capacity ?c" by simp
  from LRUCache_capacity_and_eviction[OF h1 h2 h3 h4 h5 h4 h7 h8 h9,
      of "[Put (py ''a'') (1::nat), Put (py ''b'') 2, Get (py ''a''), Put (py ''c'') 3]" 7 3]
  show ?thesis by (auto simp: cache_keys_def)
qed

section \<open>Properties of the scorer and the matcher\<close>

lemma cosine_eps_eq: "length a = length b \<Longrightarrow> cosine_eps a b = Inr (spec_cosine a b)"
  by (simp add: cosine_eps_def np_dot_def spec_cosine_def np_norm_def)

lemma score_bonus_spec: "score_bonus avg n k = spec_bonus n avg k"
  by (simp add: score_bonus_def spec_bonus_def)

lemma spec_bonus_nonneg: "0 \<le> spec_bonus n b k"
  by (simp add: spec_bonus_def)

lemma spec_bonus_values: "spec_bonus n b k \<in> {0, 10 / 100, 15 / 100}"
  by (simp add: spec_bonus_def)

lemma similarity_try_formula:
  assumes "get_dzen_embedding env st dzen_url dzen_title = (Inr dzen_emb, st1)"
    and "get_mosru_embeddings env st1 mosru_item = (Inr embs, st2)"
    and "length (emb_title embs) = length dzen_emb"
    and "length (emb_title_snippet embs) = length dzen_emb"
  shows "similarity_try env st dzen_url dzen_title mosru_item =
     (Inr (spec_final_score
            ((spec_cosine dzen_emb (emb_title embs) +
              spec_cosine dzen_emb (emb_title_snippet embs)) / 2)
            (spec_bonus (count_common_words env dzen_title (m_title mosru_item))
               ((spec_cosine dzen_emb (emb_title embs) +
                 spec_cosine dzen_emb (emb_title_snippet embs)) / 2)
               (has_keyword_phrase_in_both env dzen_title (m_title mosru_item)))), st2)"
proof -
  have c1: "cosine_eps dzen_emb (emb_title embs) = Inr (spec_cosine dzen_emb (emb_title embs))"
    using assms(3) by (simp add: cosine_eps_eq)
  have c2: "cosine_eps dzen_emb (emb_title_snippet embs) =
            Inr (spec_cosine dzen_emb (emb_title_snippet embs))"
    using assms(4) by (simp add: cosine_eps_eq)
  show ?thesis
    unfolding similarity_try_def
    by (simp add: assms(1,2) c1 c2 Let_def score_bonus_spec spec_final_score_def)
qed

lemma similarity_try_le_1:
  assumes "similarity_try env st u t item = (Inr s, st')"
  shows "s \<le> 1"
proof -
  obtain r1 st1 where g1: "get_dzen_embedding env st u t = (r1, st1)" by (cases "get_dzen_embedding env st u t")
  show ?thesis
  proof (cases r1)
    case (Inl e)
    then show ?thesis using assms g1 by (simp add: similarity_try_def)
  next
    case (Inr d)
    obtain r2 st2 where g2: "get_mosru_embeddings env st1 item = (r2, st2)"
      by (cases "get_mosru_embeddings env st1 item")
    show ?thesis
    proof (cases r2)
      case (Inl e)
      then show ?thesis using assms g1 g2 Inr by (simp add: similarity_try_def)
    next
      case m: (Inr m)
      show ?thesis
        using assms g1 g2 Inr m
        by (auto simp: similarity_try_def Let_def split: sum.splits)
    qed
  qed
qed

lemma calculate_similarity_le_1: "fst (calculate_similarity_sbert env st u t item) \<le> 1"
proof (cases "similarity_try env st u t item")
  case (Pair r st')
  then show ?thesis
    by (cases r) (auto simp: calculate_similarity_sbert_def dest: similarity_try_le_1)
qed

lemma calculate_similarity_failed:
  "fst (similarity_try env st u t item) = Inl e \<Longrightarrow>
   calculate_similarity_sbert env st u t item = (0, snd (similarity_try env st u t item))"
  by (cases "similarity_try env st u t item") (simp add: calculate_similarity_sbert_def)

lemma similarity_try_embedding_raises:
  "\<not> contains_key (DZEN_EMB_CACHE st) u \<Longrightarrow> get_sentence_embedding env t = None \<Longrightarrow>
   similarity_try env st u t item = (Inl ModelError, st)"
  by (simp add: similarity_try_def get_dzen_embedding_def)

lemma pass_scores_le_1: "s \<in> set (pass_scores env u t items st) \<Longrightarrow> s \<le> 1"
proof (induction items arbitrary: st)
  case Nil
  then show ?case by simp
next
  case (Cons item items)
  obtain sc st' where c: "calculate_similarity_sbert env st u t item = (sc, st')"
    by (cases "calculate_similarity_sbert env st u t item")
  have "sc \<le> 1" using calculate_similarity_le_1[of env st u t item] c by simp
  then show ?case using Cons c by auto
qed

lemma length_pass_scores [simp]: "length (pass_scores env u t items st) = length items"
  by (induction items arbitrary: st) (auto split: prod.splits)

lemma best_match_loop_all_le:
  "\<forall>s\<in>set (pass_scores env u t items st). s \<le> bs \<Longrightarrow>
   fst (best_match_loop env u t items bi bs st) = (bi, bs)"
proof (induction items arbitrary: st)
  case Nil
  then show ?case by simp
next
  case (Cons item items)
  obtain sc st' where c: "calculate_similarity_sbert env st u t item = (sc, st')"
    by (cases "calculate_similarity_sbert env st u t item")
  have "sc \<le> bs" and "\<forall>s\<in>set (pass_scores env u t items st'). s \<le> bs"
    using Cons.prems c by auto
  then show ?case using Cons.IH[of st'] c by simp
qed

lemma find_best_match_fst:
  "fst (find_best_match env st t items) =
   fst (best_match_loop env (temp_url_of env t) t items None 0 st)"
  by (simp add: find_best_match_def Let_def split: prod.splits sum.splits)

text \<open>
  What the loop returns, in terms of the scores of the pass: the running best is
  kept when no score exceeds it, and is otherwise the first reference at which the
  greatest score is reached.
\<close>

lemma best_match_loop_spec:
  "fst (best_match_loop env u t items bi bs st) = (ri, rs) \<Longrightarrow>
   (\<forall>j<length items. pass_scores env u t items st ! j \<le> rs) \<and> bs \<le> rs \<and>
   ((ri = bi \<and> rs = bs) \<or>
    (\<exists>i<length items. ri = Some (items ! i) \<and> rs = pass_scores env u t items st ! i \<and> bs < rs \<and>
        (\<forall>j<i. pass_scores env u t items st ! j < rs)))"
proof (induction items arbitrary: bi bs st)
  case Nil
  then show ?case by simp
next
  case (Cons item items)
  obtain sc st' where c: "calculate_similarity_sbert env st u t item = (sc, st')"
    by (cases "calculate_similarity_sbert env st u t item")
  let ?ps = "pass_scores env u t items st'"
  have ps: "pass_scores env u t (item # items) st = sc # ?ps" using c by simp
  show ?case
  proof (cases "sc > bs")
    case True
    then have "fst (best_match_loop env u t items (Some item) sc st') = (ri, rs)"
      using Cons.prems c by simp
    from Cons.IH[OF this]
    have a: "\<forall>j<length items. ?ps ! j \<le> rs" and b: "sc \<le> rs"
      and d: "(ri = Some item \<and> rs = sc) \<or>
          (\<exists>i<length items. ri = Some (items ! i) \<and> rs = ?ps ! i \<and> sc < rs \<and> (\<forall>j<i. ?ps ! j < rs))"
      by auto
    have all: "\<forall>j<length (item # items). (sc # ?ps) ! j \<le> rs"
      using a b by (auto simp: nth_Cons')
    have "\<exists>i<length (item # items). ri = Some ((item # items) ! i) \<and> rs = (sc # ?ps) ! i \<and> bs < rs \<and>
             (\<forall>j<i. (sc # ?ps) ! j < rs)"
      using d
    proof
      assume "ri = Some item \<and> rs = sc"
      then show ?thesis using True by (intro exI[of _ 0]) simp
    next
      assume "\<exists>i<length items. ri = Some (items ! i) \<and> rs = ?ps ! i \<and> sc < rs \<and> (\<forall>j<i. ?ps ! j < rs)"
      then obtain i where i: "i < length items" "ri = Some (items ! i)" "rs = ?ps ! i" "sc < rs"
        "\<forall>j<i. ?ps ! j < rs" by blast
      have "\<forall>j<Suc i. (sc # ?ps) ! j < rs"
        using i(4,5) by (auto simp: nth_Cons' less_Suc_eq_0_disj)
      then show ?thesis using i True
        by (intro exI[of _ "Suc i"]) auto
    qed
    then show ?thesis using all b True unfolding ps by auto
  next
    case False
    then have "fst (best_match_loop env u t items bi bs st') = (ri, rs)"
      using Cons.prems c by simp
    from Cons.IH[OF this]
    have a: "\<forall>j<length items. ?ps ! j \<le> rs" and b: "bs \<le> rs"
      and d: "(ri = bi \<and> rs = bs) \<or>
          (\<exists>i<length items. ri = Some (items ! i) \<and> rs = ?ps ! i \<and> bs < rs \<and> (\<forall>j<i. ?ps ! j < rs))"
      by auto
    have all: "\<forall>j<length (item # items). (sc # ?ps) ! j \<le> rs"
      using a b False by (auto simp: nth_Cons')
    have "(ri = bi \<and> rs = bs) \<or>
          (\<exists>i<length (item # items). ri = Some ((item # items) ! i) \<and> rs = (sc # ?ps) ! i \<and> bs < rs \<and>
             (\<forall>j<i. (sc # ?ps) ! j < rs))"
      using d
    proof
      assume "ri = bi \<and> rs = bs"
      then show ?thesis by simp
    next
      assume "\<exists>i<length items. ri = Some (items ! i) \<and> rs = ?ps ! i \<and> bs < rs \<and> (\<forall>j<i. ?ps ! j < rs)"
      then obtain i where i: "i < length items" "ri = Some (items ! i)" "rs = ?ps ! i" "bs < rs"
        "\<forall>j<i. ?ps ! j < rs" by blast
      have "sc < rs" using False i(4) by simp
      then have "\<forall>j<Suc i. (sc # ?ps) ! j < rs"
        using i(5) by (auto simp: nth_Cons' less_Suc_eq_0_disj)
      then have "\<exists>k<length (item # items). ri = Some ((item # items) ! k) \<and> rs = (sc # ?ps) ! k \<and> bs < rs \<and>
             (\<forall>j<k. (sc # ?ps) ! j < rs)"
        using i by (intro exI[of _ "Suc i"]) auto
      then show ?thesis by blast
    qed
    then show ?thesis using all b unfolding ps by auto
  qed
qed

lemma best_match_loop_bounds:
  assumes "0 \<le> bs" and "bs \<le> 1"
  shows "0 \<le> snd (fst (best_match_loop env u t items bi bs st)) \<and>
         snd (fst (best_match_loop env u t items bi bs st)) \<le> 1"
proof -
  obtain ri rs where r: "fst (best_match_loop env u t items bi bs st) = (ri, rs)"
    by (cases "fst (best_match_loop env u t items bi bs st)")
  from best_match_loop_spec[OF r]
  have b: "bs \<le> rs"
    and d: "(ri = bi \<and> rs = bs) \<or> (\<exists>i<length items. rs = pass_scores env u t items st ! i)"
    by auto
  have "rs \<le> 1"
    using d
  proof
    assume "ri = bi \<and> rs = bs"
    then show ?thesis using assms(2) by simp
  next
    assume "\<exists>i<length items. rs = pass_scores env u t items st ! i"
    then obtain i where "i < length items" "rs = pass_scores env u t items st ! i" by blast
    then have "rs \<in> set (pass_scores env u t items st)" by simp
    then show ?thesis by (rule pass_scores_le_1)
  qed
  then show ?thesis using r b assms(1) by simp
qed

lemma find_best_match_bounds:
  "0 \<le> snd (fst (find_best_match env st t items)) \<and> snd (fst (find_best_match env st t items)) \<le> 1"
  using best_match_loop_bounds[of 0 env "temp_url_of env t" t items None st]
  by (simp add: find_best_match_fst)

section \<open>Evaluation on the concrete inputs\<close>

lemma demo_env_fields [simp]:
  "str_lower demo_env = demo_lower"
  "get_sentence_embedding demo_env = demo_embedding"
  "keywords_topics demo_env = Some []"
  "str_hash demo_env = (\<lambda>s. 0)"
  "timestamp_now demo_env = 0"
  "set_order demo_env = sorted_list_of_set"
  by (simp_all add: demo_env_def)

lemma demo_item_fields [simp]:
  "m_url (demo_item u t) = py u"
  "m_title (demo_item u t) = py t"
  "m_snippet (demo_item u t) = []"
  "in_dzen (demo_item u t) = False"
  by (simp_all add: demo_item_def)

lemma demo_tokens: "normalize_for_match demo_env [c] = {}"
  by (auto simp: normalize_for_match_def normalize_text_simple_def demo_lower_def py_strip_def
      py_split_def)

lemma demo_common [simp]: "count_common_words demo_env [c] [d] = 0"
  by (simp add: count_common_words_def demo_tokens)

lemma demo_no_keywords [simp]: "has_keyword_phrase_in_both demo_env t1 t2 = False"
  by (simp add: has_keyword_phrase_in_both_def)

lemma demo_normalize_letter [simp]:
  "97 \<le> c \<Longrightarrow> c \<le> 122 \<Longrightarrow> normalize_text_simple demo_env [c] = [c]"
  by (simp add: normalize_text_simple_def demo_lower_def kept_char_def is_space_def py_strip_def)

lemma demo_temp_url [simp]: "temp_url_of demo_env x = py ''temp_0''"
  by (simp add: temp_url_of_def int_str_def)

lemma sqrt_25 [simp]: "sqrt 25 = 5"
  by (rule real_sqrt_unique) simp_all

lemmas eval_defs =
  calculate_similarity_sbert_def similarity_try_def get_dzen_embedding_def
  get_mosru_embeddings_def compute_mosru_embeddings_def demo_caches_def demo_item_def
  LRUCache_init_def contains_key_def cache_keys_def demo_embedding_def setitem_def getitem_def
  delitem_def move_to_end_def od_delitem_def od_setitem_def cosine_eps_def np_dot_def np_norm_def
  Let_def score_bonus_def find_best_match_def

lemma demo_tokens_clinic:
  "normalize_for_match demo_env (py ''clinic opens moscow'') = {py ''clin'', py ''open'', py ''mosc''}"
  "normalize_for_match demo_env (py ''moscow clinic opens'') = {py ''clin'', py ''open'', py ''mosc''}"
  by (auto simp: normalize_for_match_def normalize_text_simple_def demo_lower_def py_strip_def
      py_split_def kept_char_def is_space_def COMMON_WORD_STOPLIST_def)

lemma demo_common_clinic:
  "count_common_words demo_env (py ''clinic opens moscow'') (py ''moscow clinic opens'') = 3"
  by (simp add: count_common_words_def demo_tokens_clinic[simplified])

section \<open>The claims about the scorer and the matcher\<close>

text \<open>
  C3. When the embeddings of the candidate and of the reference are obtained (from
  the cache or from the model) and have the candidate's dimension, the score the
  scorer returns is \<open>min (base_score * (1 + bonus)) 1\<close>, where \<open>base_score\<close> is the
  average of the (epsilon-guarded) cosine similarities of the candidate embedding
  with the reference's title embedding and title+snippet embedding, and the bonus
  follows the rules in their priority order: with at least 3 common filtered tokens
  it is 0.10 when \<open>base_score \<ge> 0.7\<close> and 0.15 otherwise; else 0.15 when a keyword
  phrase occurs in both normalized titles; else 0.
\<close>

theorem scorer_bonus_and_final_score:
  assumes "get_dzen_embedding env st dzen_url dzen_title = (Inr dzen_emb, st1)"
    and "get_mosru_embeddings env st1 mosru_item = (Inr embs, st2)"
    and "length (emb_title embs) = length dzen_emb"
    and "length (emb_title_snippet embs) = length dzen_emb"
  shows "(let base_score = (spec_cosine dzen_emb (emb_title embs) +
                            spec_cosine dzen_emb (emb_title_snippet embs)) / 2;
              common = count_common_words env dzen_title (m_title mosru_item);
              keyword_cooccurs = has_keyword_phrase_in_both env dzen_title (m_title mosru_item);
              bonus = (if common \<ge> 3 then (if base_score \<ge> 7 / 10 then 10 / 100 else 15 / 100)
                       else if keyword_cooccurs then 15 / 100 else 0)
          in fst (calculate_similarity_sbert env st dzen_url dzen_title mosru_item)
               = min (base_score * (1 + bonus)) 1
             \<and> bonus = spec_bonus common base_score keyword_cooccurs)"
  using similarity_try_formula[OF assms]
  by (simp add: calculate_similarity_sbert_def Let_def spec_final_score_def spec_bonus_def)

theorem scorer_bonus_and_final_score_witness:
  "fst (calculate_similarity_sbert demo_env demo_caches (py ''temp_0'')
          (py ''clinic opens moscow'') (demo_item ''mos.ru/1/'' ''moscow clinic opens''))
     = min ((3 / (5 + 1 / 10 ^ 9)) * (1 + 15 / 100)) 1"
proof -
  let ?st1 = "demo_caches\<lparr>DZEN_EMB_CACHE := setitem (DZEN_EMB_CACHE demo_caches) (py ''temp_0'')
                \<lparr>dz_embedding = [3, 4], dz_timestamp = 0\<rparr>\<rparr>"
  let ?embs = "\<lparr>emb_title = [1, 0], emb_title_snippet = [1, 0], emb_snippet = [0, 0]\<rparr>"
  let ?item = "demo_item ''mos.ru/1/'' ''moscow clinic opens''"
  let ?st2 = "?st1\<lparr>MOSRU_EMB_CACHE := setitem (MOSRU_EMB_CACHE ?st1) (m_url ?item)
                \<lparr>ms_embeddings = ?embs, ms_timestamp = 0\<rparr>\<rparr>"
  have h1: "get_dzen_embedding demo_env demo_caches (py ''temp_0'') (py ''clinic opens moscow'')
            = (Inr [3, 4], ?st1)"
    by (simp add: get_dzen_embedding_def demo_caches_def LRUCache_init_def contains_key_def
        cache_keys_def demo_embedding_def)
  have h2: "get_mosru_embeddings demo_env ?st1 ?item = (Inr ?embs, ?st2)"
    by (simp add: get_mosru_embeddings_def compute_mosru_embeddings_def demo_caches_def
        LRUCache_init_def contains_key_def cache_keys_def demo_embedding_def demo_item_def)
  have h3: "length (emb_title ?embs) = length [3, 4 :: real]" by simp
  have h4: "length (emb_title_snippet ?embs) = length [3, 4 :: real]" by simp
  have c: "spec_cosine [3, 4] [1, 0] = 3 / (5 + 1 / 10 ^ 9)"
    by (simp add: spec_cosine_def)
  from scorer_bonus_and_final_score[OF h1 h2 h3 h4]
  show ?thesis
    by (simp add: Let_def c demo_common_clinic[simplified])
qed

text \<open>
  C8. When anything inside one similarity comparison raises (the embedding model
  among it), the scorer returns 0.0 and the exception does not leave it; since the
  running best score is never negative, the matching pass goes on with the rest of
  the pool and the best match so far unchanged. In particular a candidate whose
  embedding is not cached and cannot be computed scores 0.0.
\<close>

theorem failed_comparison_scores_zero:
  assumes "fst (similarity_try env st temp_url dzen_title item) = Inl e"
    and "0 \<le> best_score"
  shows "fst (calculate_similarity_sbert env st temp_url dzen_title item) = 0 \<and>
         best_match_loop env temp_url dzen_title (item # items) best_item best_score st =
         best_match_loop env temp_url dzen_title items best_item best_score
           (snd (calculate_similarity_sbert env st temp_url dzen_title item)) \<and>
         (\<not> contains_key (DZEN_EMB_CACHE st') temp_url \<and> get_sentence_embedding env dzen_title' = None
            \<longrightarrow> calculate_similarity_sbert env st' temp_url dzen_title' item' = (0, st'))"
proof -
  have c: "calculate_similarity_sbert env st temp_url dzen_title item =
           (0, snd (similarity_try env st temp_url dzen_title item))"
    using calculate_similarity_failed[OF assms(1)] .
  have l: "best_match_loop env temp_url dzen_title (item # items) best_item best_score st =
         best_match_loop env temp_url dzen_title items best_item best_score
           (snd (calculate_similarity_sbert env st temp_url dzen_title item))"
    using c assms(2) by simp
  have "\<not> contains_key (DZEN_EMB_CACHE st') temp_url \<and> get_sentence_embedding env dzen_title' = None
            \<longrightarrow> calculate_similarity_sbert env st' temp_url dzen_title' item' = (0, st')"
    by (simp add: calculate_similarity_sbert_def similarity_try_embedding_raises)
  then show ?thesis using c l by simp
qed

theorem failed_comparison_scores_zero_witness:
  "fst (calculate_similarity_sbert demo_env demo_caches (py ''temp_0'') (py ''a'')
          (demo_item ''mos.ru/x/'' ''x'')) = 0 \<and>
   fst (best_match_loop demo_env (py ''temp_0'') (py ''a'')
          [demo_item ''mos.ru/x/'' ''x'', demo_item ''mos.ru/m/'' ''m''] None 0 demo_caches)
     = (Some (demo_item ''mos.ru/m/'' ''m''), 1000000000 / 1000000001) \<and>
   calculate_similarity_sbert demo_env demo_caches (py ''temp_0'') (py ''x'')
          (demo_item ''mos.ru/m/'' ''m'') = (0, demo_caches)"
proof -
  have h1: "fst (similarity_try demo_env demo_caches (py ''temp_0'') (py ''a'')
                   (demo_item ''mos.ru/x/'' ''x'')) = Inl ModelError"
    by (simp add: eval_defs)
  have h2: "(0::real) \<le> 0" by simp
  have h3: "\<not> contains_key (DZEN_EMB_CACHE demo_caches) (py ''temp_0'') \<and>
            get_sentence_embedding demo_env (py ''x'') = None"
    by (simp add: eval_defs)
  have r: "fst (best_match_loop demo_env (py ''temp_0'') (py ''a'') [demo_item ''mos.ru/m/'' ''m''] None 0
           (snd (calculate_similarity_sbert demo_env demo_caches (py ''temp_0'') (py ''a'')
                  (demo_item ''mos.ru/x/'' ''x''))))
        = (Some (demo_item ''mos.ru/m/'' ''m''), 1000000000 / 1000000001)"
    by (simp add: eval_defs)
  note T = failed_comparison_scores_zero[where items = "[demo_item ''mos.ru/m/'' ''m'']"
      and best_item = None and st' = demo_caches and dzen_title' = "py ''x''"
      and item' = "demo_item ''mos.ru/m/'' ''m''", OF h1 h2]
  have t1: "fst (calculate_similarity_sbert demo_env demo_caches (py ''temp_0'') (py ''a'')
          (demo_item ''mos.ru/x/'' ''x'')) = 0"
    using T by (rule conjunct1)
  have t2: "best_match_loop demo_env (py ''temp_0'') (py ''a'')
          [demo_item ''mos.ru/x/'' ''x'', demo_item ''mos.ru/m/'' ''m''] None 0 demo_caches =
        best_match_loop demo_env (py ''temp_0'') (py ''a'') [demo_item ''mos.ru/m/'' ''m''] None 0
           (snd (calculate_similarity_sbert demo_env demo_caches (py ''temp_0'') (py ''a'')
                  (demo_item ''mos.ru/x/'' ''x'')))"
    using T by (rule conjunct2[THEN conjunct1])
  have t3: "calculate_similarity_sbert demo_env demo_caches (py ''temp_0'') (py ''x'')
          (demo_item ''mos.ru/m/'' ''m'') = (0, demo_caches)"
    using T[THEN conjunct2, THEN conjunct2] h3 by (rule mp)
  have t4: "fst (best_match_loop demo_env (py ''temp_0'') (py ''a'')
          [demo_item ''mos.ru/x/'' ''x'', demo_item ''mos.ru/m/'' ''m''] None 0 demo_caches)
     = (Some (demo_item ''mos.ru/m/'' ''m''), 1000000000 / 1000000001)"
    by (simp only: t2 r)
  from t1 t4 t3 show ?thesis by (intro conjI)
qed

text \<open>
  C10. On an empty pool \<open>find_best_match\<close> returns \<open>(None, 0.0)\<close>, and so it does
  whenever every reference of the pool scores at most 0.0: the running best starts
  at 0.0 and only a strictly greater score replaces it, so a reference scoring
  exactly 0.0 is never returned.
\<close>

theorem find_best_match_none_when_no_positive_score:
  "fst (find_best_match env st dzen_title []) = (None, 0) \<and>
   ((\<forall>s \<in> set (pass_scores env (temp_url_of env dzen_title) dzen_title mosru_items st). s \<le> 0)
      \<longrightarrow> fst (find_best_match env st dzen_title mosru_items) = (None, 0))"
  by (simp add: find_best_match_fst best_match_loop_all_le)

theorem find_best_match_none_when_no_positive_score_witness:
  "pass_scores demo_env (temp_url_of demo_env (py ''a'')) (py ''a'')
                [demo_item ''mos.ru/x/'' ''x'', demo_item ''mos.ru/n/'' ''n''] demo_caches
     = [0, - (1000000000 / 1000000001)] \<and>
   fst (find_best_match demo_env demo_caches (py ''a'')
          [demo_item ''mos.ru/x/'' ''x'', demo_item ''mos.ru/n/'' ''n'']) = (None, 0)"
proof -
  have s: "pass_scores demo_env (temp_url_of demo_env (py ''a'')) (py ''a'')
                [demo_item ''mos.ru/x/'' ''x'', demo_item ''mos.ru/n/'' ''n''] demo_caches
     = [0, - (1000000000 / 1000000001)]"
    by (simp add: eval_defs)
  then have a: "\<forall>s \<in> set (pass_scores demo_env (temp_url_of demo_env (py ''a'')) (py ''a'')
                [demo_item ''mos.ru/x/'' ''x'', demo_item ''mos.ru/n/'' ''n''] demo_caches). s \<le> 0"
    by simp
  from find_best_match_none_when_no_positive_score[of demo_env demo_caches "py ''a''"
      "[demo_item ''mos.ru/x/'' ''x'', demo_item ''mos.ru/n/'' ''n'']"] a s
  show ?thesis by blast
qed

section \<open>Properties of the aggregator pass\<close>

lemma find_best_match_none_score:
  assumes "fst (find_best_match env st t items) = (None, s)"
  shows "s = 0"
proof -
  have "fst (best_match_loop env (temp_url_of env t) t items None 0 st) = (None, s)"
    using assms by (simp add: find_best_match_fst)
  from best_match_loop_spec[OF this] show ?thesis by auto
qed

lemma tie_break_empty: "mosru_url_already_used [] u s = Inr False"
  by simp




text \<open>The tie-break rejects only on a recorded claim of the same source: a strictly
  higher score, or a negative candidate score against a record without a score.\<close>

lemma tie_break_true_has_claim:
  "mosru_url_already_used history u s = Inr True \<Longrightarrow>
   \<exists>r\<in>set history. match_type r = Some (py ''sbert'') \<and> mosru_source_url r = Some u \<and>
      ((\<exists>p. similarity_score r = Score p \<and> s < p) \<or> (similarity_score r = Absent \<and> s < 0))"
  by (induction history) (auto split: if_splits json_score.splits)

lemma semantic_matches_keyword_fallback [simp]:
  "semantic_matches (keyword_fallback env inp st url title) = semantic_matches st"
proof -
  have ne: "py ''keywords'' \<noteq> py ''sbert''" by simp
  show ?thesis
    unfolding semantic_matches_def keyword_fallback_def Let_def
    using ne by (simp del: list.map)
qed

lemma semantic_matches_accept_sbert:
  "semantic_matches (accept_sbert env inp st url title best score) =
   semantic_matches st @
     [\<lparr>d_url = url, d_title = py_strip title, d_added_at = now_iso inp,
       mosru_source_url = Some (m_url best), mosru_title = Some (m_title best),
       mosru_snippet = Some (m_snippet best), match_type = Some (py ''sbert''),
       similarity_score = Score score,
       common_words = Some (count_common_words env title (m_title best)),
       matched_keywords = []\<rparr>]"
  by (simp add: semantic_matches_def accept_sbert_def)

lemma semantic_matches_frame [simp]:
  "semantic_matches (st\<lparr>caches := c\<rparr>) = semantic_matches st"
  "semantic_matches (st\<lparr>filtered_out_urls := f\<rparr>) = semantic_matches st"
  "semantic_matches (st\<lparr>url_set := us\<rparr>) = semantic_matches st"
  "semantic_matches (st\<lparr>already_analyzed_count := n\<rparr>) = semantic_matches st"
  by (simp_all add: semantic_matches_def)

text \<open>The outcomes of \<open>match_card\<close>, by the result of the matcher.\<close>

lemma match_card_accept:
  assumes "find_best_match env (caches st) title (recent_mosru inp) = ((Some best, score), c')"
    and "SBERT_SIMILARITY_THRESHOLD inp \<le> score"
    and "mosru_url_already_used (dzen_history_raw st) (m_url best) score = Inr False"
  shows "match_card env inp st url title =
         Inr (accept_sbert env inp (st\<lparr>caches := c'\<rparr>) url title best score)"
  using assms by (simp add: match_card_def Let_def)

lemma match_card_reject:
  assumes "find_best_match env (caches st) title (recent_mosru inp) = ((Some best, score), c')"
    and "SBERT_SIMILARITY_THRESHOLD inp \<le> score"
    and "mosru_url_already_used (dzen_history_raw st) (m_url best) score = Inr True"
  shows "match_card env inp st url title =
         Inr (st\<lparr>caches := c', filtered_out_urls := filtered_out_urls st @ [url]\<rparr>)"
  using assms by (simp add: match_card_def Let_def)

lemma match_card_raise:
  assumes "find_best_match env (caches st) title (recent_mosru inp) = ((Some best, score), c')"
    and "SBERT_SIMILARITY_THRESHOLD inp \<le> score"
    and "mosru_url_already_used (dzen_history_raw st) (m_url best) score = Inl e"
  shows "match_card env inp st url title = Inl e"
  using assms by (simp add: match_card_def Let_def)

lemma match_card_below:
  assumes "find_best_match env (caches st) title (recent_mosru inp) = ((bi, score), c')"
    and "score < SBERT_SIMILARITY_THRESHOLD inp"
  shows "match_card env inp st url title =
         Inr (keyword_fallback env inp (st\<lparr>caches := c'\<rparr>) url title)"
  using assms by (cases bi) (simp_all add: match_card_def Let_def)

lemma match_card_none:
  assumes "find_best_match env (caches st) title (recent_mosru inp) = ((None, score), c')"
  shows "match_card env inp st url title =
         Inr (keyword_fallback env inp (st\<lparr>caches := c'\<rparr>) url title)"
  using assms by (simp add: match_card_def Let_def)

lemmas pass_defs =
  demo_pass_def fetch_dzen_news_def process_card_def match_card_def rename_in_place_def
  keyword_fallback_def accept_sbert_def dzen_news_item_def build_title_map_def demo_state_def
  dzen_card_url_def normalize_mosru_url_def is_url_analyzed_def add_analyzed_urls_def
  trim_analyzed_urls_if_needed_def MAX_ANALYZED_URLS_def normalize_text_def accepted_records_def
  delivered_items_def demo_inputs_def demo_pass_state_def demo_prior_claim_def
  semantic_matches_def



section \<open>The claim about the threshold gate\<close>






section \<open>The claim about renames\<close>

lemma demo_normalize_upper [simp]:
  "65 \<le> c \<Longrightarrow> c \<le> 90 \<Longrightarrow> normalize_text_simple demo_env [c] = [c + 32]"
  by (simp add: normalize_text_simple_def demo_lower_def kept_char_def is_space_def py_strip_def)

text \<open>The title map holds, for each normalized title, the last record that has it.\<close>

lemma build_title_map_last:
  "build_title_map env history k =
     (if filter (\<lambda>i. normalize_text env (d_title i) = k) history = [] then None
      else Some (last (filter (\<lambda>i. normalize_text env (d_title i) = k) history)))"
proof (induction history rule: rev_induct)
  case Nil
  then show ?case by (simp add: build_title_map_def)
next
  case (snoc x xs)
  have s: "build_title_map env (xs @ [x]) = (build_title_map env xs)(normalize_text env (d_title x) \<mapsto> x)"
    by (simp add: build_title_map_def)
  show ?case
  proof (cases "normalize_text env (d_title x) = k")
    case True
    then show ?thesis unfolding s by simp
  next
    case False
    then show ?thesis unfolding s using snoc by simp
  qed
qed

lemma filter_unique_title:
  assumes "\<forall>i\<in>set pre \<union> set post. normalize_text env (d_title i) \<noteq> k"
    and "normalize_text env (d_title r) = k"
  shows "filter (\<lambda>i. normalize_text env (d_title i) = k) (pre @ [r] @ post) = [r]"
proof -
  have "filter (\<lambda>i. normalize_text env (d_title i) = k) pre = []"
    using assms(1) by (auto simp: filter_empty_conv)
  moreover have "filter (\<lambda>i. normalize_text env (d_title i) = k) post = []"
    using assms(1) by (auto simp: filter_empty_conv)
  ultimately show ?thesis using assms(2) by simp
qed

lemma map_unique_title:
  assumes "\<forall>i\<in>set pre \<union> set post. normalize_text env (d_title i) \<noteq> k"
    and "normalize_text env (d_title r) = k"
  shows "map (\<lambda>i. if normalize_text env (d_title i) \<noteq> k then i else r') (pre @ [r] @ post)
         = pre @ [r'] @ post"
proof -
  have "map (\<lambda>i. if normalize_text env (d_title i) \<noteq> k then i else r') pre = pre"
    using assms(1) by (intro map_idI) auto
  moreover have "map (\<lambda>i. if normalize_text env (d_title i) \<noteq> k then i else r') post = post"
    using assms(1) by (intro map_idI) auto
  ultimately show ?thesis using assms(2) by simp
qed

text \<open>
  What a rename does to the history of the pass. A candidate that reaches the
  title check (non-empty url and title, url not seen in this pass and not analyzed
  before) and whose normalized title is the normalized title of a history record:
  the record the engine looks at is the last one with that normalized title,
  \<open>old\<close>. When the url of \<open>old\<close> differs from the candidate's, \<open>old\<close> takes the
  candidate's url and the current time, every history record with that normalized
  title is replaced by the rewritten record, the records with other titles are
  unchanged, and the history is saved; the candidate is neither delivered nor
  recorded. When \<open>old\<close> is the only record with that normalized title, only its url
  and timestamp change.
\<close>

lemma rename_rewrites_record_in_place:
  assumes "url \<noteq> []" and "title \<noteq> []" and "url \<notin> url_set st"
    and "\<not> is_url_analyzed (analyzed_before inp) url"
    and "dzen_title_map st = build_title_map env (dzen_history_raw st)"
    and "filter (\<lambda>i. normalize_text env (d_title i) = normalize_text env title) (dzen_history_raw st)
           = same"
    and "same \<noteq> []" and "old = last same" and "d_url old \<noteq> url"
  shows "\<exists>st'. process_card env inp st (url, title) = Inr st' \<and>
           dzen_history_raw st' =
             map (\<lambda>i. if normalize_text env (d_title i) \<noteq> normalize_text env title then i
                       else old\<lparr>d_url := url, d_added_at := now_iso inp\<rparr>) (dzen_history_raw st) \<and>
           dzen_history_file st' = dzen_history_raw st' \<and>
           length (dzen_history_raw st') = length (dzen_history_raw st) \<and>
           filtered_dzen_news st' = filtered_dzen_news st \<and>
           filtered_dzen_history st' = filtered_dzen_history st \<and>
           filtered_out_urls st' = filtered_out_urls st \<and>
           (\<forall>pre r post. dzen_history_raw st = pre @ [r] @ post \<and>
               normalize_text env (d_title r) = normalize_text env title \<and>
               (\<forall>i\<in>set pre \<union> set post.
                   normalize_text env (d_title i) \<noteq> normalize_text env title)
               \<longrightarrow> old = r \<and>
                   dzen_history_raw st' = pre @ [r\<lparr>d_url := url, d_added_at := now_iso inp\<rparr>] @ post)"
proof -
  let ?nt = "normalize_text env title"
  let ?old' = "old\<lparr>d_url := url, d_added_at := now_iso inp\<rparr>"
  let ?H' = "map (\<lambda>i. if normalize_text env (d_title i) \<noteq> ?nt then i else ?old') (dzen_history_raw st)"
  let ?st1 = "st\<lparr>url_set := insert url (url_set st)\<rparr>"
  have look: "dzen_title_map ?st1 ?nt = Some old"
    using assms(5,6,7,8) by (simp add: build_title_map_last)
  have pc: "process_card env inp st (url, title) =
            Inr (?st1\<lparr>dzen_title_map := (dzen_title_map ?st1)(?nt \<mapsto> ?old'),
                      dzen_history_raw := ?H', dzen_history_file := ?H'\<rparr>)"
    using assms(1-4,9) look
    by (simp add: process_card_def rename_in_place_def Let_def)
  have uniq: "\<forall>pre r post. dzen_history_raw st = pre @ [r] @ post \<and>
               normalize_text env (d_title r) = ?nt \<and>
               (\<forall>i\<in>set pre \<union> set post. normalize_text env (d_title i) \<noteq> ?nt)
               \<longrightarrow> old = r \<and> ?H' = pre @ [r\<lparr>d_url := url, d_added_at := now_iso inp\<rparr>] @ post"
  proof (intro allI impI)
    fix pre r post
    assume a: "dzen_history_raw st = pre @ [r] @ post \<and>
               normalize_text env (d_title r) = ?nt \<and>
               (\<forall>i\<in>set pre \<union> set post. normalize_text env (d_title i) \<noteq> ?nt)"
    then have "same = [r]"
      using assms(6) filter_unique_title[of pre post env ?nt r] by simp
    then have o: "old = r" using assms(8) by simp
    have "?H' = pre @ [?old'] @ post"
      using a map_unique_title[of pre post env ?nt r ?old'] by simp
    then show "old = r \<and> ?H' = pre @ [r\<lparr>d_url := url, d_added_at := now_iso inp\<rparr>] @ post"
      using o by simp
  qed
  show ?thesis
    unfolding pc using uniq by simp
qed

lemma rename_on_unique_title:
  "\<exists>st'. process_card demo_env demo_inputs (demo_pass_state [demo_prior_claim, demo_record_x2])
             (py ''https://dzen.ru/C'', py ''x'') = Inr st' \<and>
         dzen_history_raw st' =
           [demo_prior_claim,
            demo_record_x2\<lparr>d_url := py ''https://dzen.ru/C'', d_added_at := now_iso demo_inputs\<rparr>] \<and>
         dzen_history_file st' = dzen_history_raw st' \<and>
         filtered_dzen_news st' = [] \<and> filtered_dzen_history st' = [] \<and> filtered_out_urls st' = []"
proof -
  let ?H = "[demo_prior_claim, demo_record_x2]"
  let ?C = "py ''https://dzen.ru/C''"
  have h1: "?C \<noteq> []" by simp
  have h2: "py ''x'' \<noteq> []" by simp
  have h3: "?C \<notin> url_set (demo_pass_state ?H)" by (simp add: demo_pass_state_def)
  have h4: "\<not> is_url_analyzed (analyzed_before demo_inputs) ?C"
    by (simp add: is_url_analyzed_def demo_inputs_def)
  have h5: "dzen_title_map (demo_pass_state ?H) =
            build_title_map demo_env (dzen_history_raw (demo_pass_state ?H))"
    by (simp add: demo_pass_state_def)
  have h6: "filter (\<lambda>i. normalize_text demo_env (d_title i) = normalize_text demo_env (py ''x''))
              (dzen_history_raw (demo_pass_state ?H)) = [demo_record_x2]"
    by (simp add: demo_pass_state_def normalize_text_def demo_prior_claim_def demo_record_x2_def)
  have h7: "[demo_record_x2] \<noteq> []" by simp
  have h8: "demo_record_x2 = last [demo_record_x2]" by simp
  have h9: "d_url demo_record_x2 \<noteq> ?C" by (simp add: demo_record_x2_def)
  from rename_rewrites_record_in_place[OF h1 h2 h3 h4 h5 h6 h7 h8 h9]
  obtain st' where pc: "process_card demo_env demo_inputs (demo_pass_state ?H) (?C, py ''x'') = Inr st'"
    and fl: "dzen_history_file st' = dzen_history_raw st'"
    and news: "filtered_dzen_news st' = filtered_dzen_news (demo_pass_state ?H)"
    and recs: "filtered_dzen_history st' = filtered_dzen_history (demo_pass_state ?H)"
    and out: "filtered_out_urls st' = filtered_out_urls (demo_pass_state ?H)"
    and uniq: "\<forall>pre r post. dzen_history_raw (demo_pass_state ?H) = pre @ [r] @ post \<and>
               normalize_text demo_env (d_title r) = normalize_text demo_env (py ''x'') \<and>
               (\<forall>i\<in>set pre \<union> set post.
                   normalize_text demo_env (d_title i) \<noteq> normalize_text demo_env (py ''x''))
               \<longrightarrow> demo_record_x2 = r \<and>
                   dzen_history_raw st' = pre @ [r\<lparr>d_url := ?C, d_added_at := now_iso demo_inputs\<rparr>] @ post"
    by blast
  have u: "dzen_history_raw (demo_pass_state ?H) = [demo_prior_claim] @ [demo_record_x2] @ [] \<and>
           normalize_text demo_env (d_title demo_record_x2) = normalize_text demo_env (py ''x'') \<and>
           (\<forall>i\<in>set [demo_prior_claim] \<union> set [].
               normalize_text demo_env (d_title i) \<noteq> normalize_text demo_env (py ''x''))"
    by (simp add: demo_pass_state_def normalize_text_def demo_prior_claim_def demo_record_x2_def)
  from uniq[THEN spec, THEN spec, THEN spec, THEN mp, OF u]
  have raw: "dzen_history_raw st' =
      [demo_prior_claim] @ [demo_record_x2\<lparr>d_url := ?C, d_added_at := now_iso demo_inputs\<rparr>] @ []"
    by (rule conjunct2)
  show ?thesis
    using pc raw fl news recs out by (simp add: demo_pass_state_def)
qed

text \<open>
  C6, the code on a history with two records of one normalized title: a semantic
  match titled \<open>x\<close> under the url \<open>A\<close> and a keyword match titled \<open>X\<close> under the
  url \<open>B\<close>. The candidate \<open>x\<close> under a third url makes both records copies of the
  second one with the new url and time: the first record is not rewritten in
  place, it loses its own fields (its semantic match, source and score).
\<close>

theorem rename_overwrites_records_with_same_title:
  "history_after (process_card demo_env demo_inputs (demo_pass_state [demo_record_x1, demo_record_x2])
       (py ''https://dzen.ru/C'', py ''x'')) =
     Some [demo_record_x2\<lparr>d_url := py ''https://dzen.ru/C'', d_added_at := now_iso demo_inputs\<rparr>,
           demo_record_x2\<lparr>d_url := py ''https://dzen.ru/C'', d_added_at := now_iso demo_inputs\<rparr>] \<and>
   match_type demo_record_x1 = Some (py ''sbert'') \<and>
   match_type (demo_record_x2\<lparr>d_url := py ''https://dzen.ru/C'', d_added_at := now_iso demo_inputs\<rparr>)
     = Some (py ''keywords'')"
  by (simp add: pass_defs history_after_def demo_record_x1_def demo_record_x2_def Let_def)

section \<open>The history of a pass\<close>











lemma rename_in_place_caches [simp]:
  "caches (rename_in_place env inp st url nt old) = caches st"
  by (simp add: rename_in_place_def Let_def)



section \<open>The claim about the range of the scores\<close>

lemma recorded_scores_ok_append:
  "recorded_scores_ok (xs @ [r]) =
     (recorded_scores_ok xs \<and> score_in_unit (similarity_score r) \<and>
      (match_type r = Some (py ''sbert'') \<longrightarrow> is_number (similarity_score r)))"
  by (simp add: recorded_scores_ok_def)

lemma accept_sbert_scores:
  assumes "0 \<le> score" "score \<le> 1" "recorded_scores_ok (filtered_dzen_history st)"
  shows "recorded_scores_ok (filtered_dzen_history (accept_sbert env inp st url title best score))"
  using assms by (simp add: accept_sbert_def recorded_scores_ok_append)

lemma keyword_fallback_scores:
  assumes "recorded_scores_ok (filtered_dzen_history st)"
  shows "recorded_scores_ok (filtered_dzen_history (keyword_fallback env inp st url title))"
  using assms by (simp add: keyword_fallback_def Let_def recorded_scores_ok_append)

lemma match_card_scores:
  assumes m: "match_card env inp st url title = Inr st'"
    and ok: "recorded_scores_ok (filtered_dzen_history st)"
  shows "recorded_scores_ok (filtered_dzen_history st')"
proof -
  obtain bi bs c' where f: "find_best_match env (caches st) title (recent_mosru inp) = ((bi, bs), c')"
    by (cases "find_best_match env (caches st) title (recent_mosru inp)") auto
  from find_best_match_bounds[of env "caches st" title "recent_mosru inp"] f
  have b: "0 \<le> bs" "bs \<le> 1" by simp_all
  have ok1: "recorded_scores_ok (filtered_dzen_history (st\<lparr>caches := c'\<rparr>))" using ok by simp
  show ?thesis
  proof (cases bi)
    case None
    with f m have "st' = keyword_fallback env inp (st\<lparr>caches := c'\<rparr>) url title"
      by (simp add: match_card_none)
    then show ?thesis using keyword_fallback_scores[OF ok1] by simp
  next
    case (Some best)
    show ?thesis
    proof (cases "SBERT_SIMILARITY_THRESHOLD inp \<le> bs")
      case False
      then have "bs < SBERT_SIMILARITY_THRESHOLD inp" by simp
      from match_card_below[OF f this] m
      have "st' = keyword_fallback env inp (st\<lparr>caches := c'\<rparr>) url title" by simp
      then show ?thesis using keyword_fallback_scores[OF ok1] by simp
    next
      case True
      note ge = True
      note f' = f[unfolded Some]
      show ?thesis
      proof (cases "mosru_url_already_used (dzen_history_raw st) (m_url best) bs")
        case (Inl e)
        from match_card_raise[OF f' ge Inl] m show ?thesis by simp
      next
        case (Inr used)
        show ?thesis
        proof (cases used)
          case True
          with Inr have u: "mosru_url_already_used (dzen_history_raw st) (m_url best) bs = Inr True"
            by simp
          from match_card_reject[OF f' ge u] m
          have "st' = st\<lparr>caches := c', filtered_out_urls := filtered_out_urls st @ [url]\<rparr>" by simp
          then show ?thesis using ok by simp
        next
          case False
          with Inr have u: "mosru_url_already_used (dzen_history_raw st) (m_url best) bs = Inr False"
            by simp
          from match_card_accept[OF f' ge u] m
          have "st' = accept_sbert env inp (st\<lparr>caches := c'\<rparr>) url title best bs" by simp
          then show ?thesis using accept_sbert_scores[OF b ok1] by simp
        qed
      qed
    qed
  qed
qed

lemma rename_in_place_records [simp]:
  "filtered_dzen_history (rename_in_place env inp st url nt old) = filtered_dzen_history st"
  by (simp add: rename_in_place_def Let_def)

lemma process_card_scores:
  assumes p: "process_card env inp st page_card = Inr st'"
    and ok: "recorded_scores_ok (filtered_dzen_history st)"
  shows "recorded_scores_ok (filtered_dzen_history st')"
proof -
  obtain url title where pc: "page_card = (url, title)" by (cases page_card)
  let ?st1 = "st\<lparr>url_set := insert url (url_set st)\<rparr>"
  have ok1: "recorded_scores_ok (filtered_dzen_history ?st1)" using ok by simp
  show ?thesis
  proof (cases "url = [] \<or> title = [] \<or> url \<in> url_set st")
    case True
    with p pc have "st' = st" by (simp add: process_card_def)
    then show ?thesis using ok by simp
  next
    case skip: False
    show ?thesis
    proof (cases "is_url_analyzed (analyzed_before inp) url")
      case True
      with p pc skip have "st' = st\<lparr>already_analyzed_count := already_analyzed_count st + 1\<rparr>"
        by (simp add: process_card_def)
      then show ?thesis using ok by simp
    next
      case seen: False
      show ?thesis
      proof (cases "dzen_title_map st (normalize_text env title)")
        case (Some old)
        with p pc skip seen
        have "st' = rename_in_place env inp ?st1 url (normalize_text env title) old"
          by (simp add: process_card_def Let_def)
        then show ?thesis using ok by simp
      next
        case None
        show ?thesis
        proof (cases "url \<in> dzen_history_urls inp")
          case True
          with p pc skip seen None have "st' = ?st1" by (simp add: process_card_def Let_def)
          then show ?thesis using ok by simp
        next
          case False
          with p pc skip seen None have "match_card env inp ?st1 url title = Inr st'"
            by (simp add: process_card_def Let_def)
          from match_card_scores[OF this ok1] show ?thesis .
        qed
      qed
    qed
  qed
qed

lemma card_loop_scores:
  "card_loop env inp st cards = Inr st' \<Longrightarrow> recorded_scores_ok (filtered_dzen_history st) \<Longrightarrow>
   recorded_scores_ok (filtered_dzen_history st')"
proof (induction cards arbitrary: st)
  case Nil
  then show ?case by simp
next
  case (Cons c cards)
  show ?case
  proof (cases "process_card env inp st c")
    case (Inl e)
    with Cons.prems show ?thesis by simp
  next
    case (Inr st1)
    from process_card_scores[OF Inr Cons.prems(2)] have "recorded_scores_ok (filtered_dzen_history st1)" .
    moreover from Cons.prems(1) Inr have "card_loop env inp st1 cards = Inr st'" by simp
    ultimately show ?thesis by (rule Cons.IH[rotated])
  qed
qed

lemma fetch_dzen_news_scores:
  "recorded_scores_ok (accepted_records
     (fetch_dzen_news env threshold max_urls recent now es mosru_history history_urls cards))"
proof (cases "keywords_topics env")
  case None
  then show ?thesis
    by (simp add: fetch_dzen_news_def accepted_records_def recorded_scores_ok_def)
next
  case (Some topics)
  let ?inp = "\<lparr>SBERT_SIMILARITY_THRESHOLD = threshold,
                analyzed_before = analyzed_urls es,
                dzen_history_urls = history_urls,
                recent_mosru = filter (\<lambda>i. recent (m_added_at i))
                   (map (\<lambda>i. if recent (m_added_at i)
                             then i\<lparr>m_url := normalize_mosru_url (m_url i)\<rparr> else i) mosru_history),
                norm_keywords = set_order env (set (map (normalize_text env) topics)),
                now_iso = now\<rparr>"
  let ?st0 = "\<lparr>url_set = {},
                dzen_title_map = build_title_map env (dzen_history_store es),
                dzen_history_raw = dzen_history_store es,
                dzen_history_file = dzen_history_store es,
                filtered_dzen_news = [],
                filtered_dzen_history = [],
                filtered_out_urls = [],
                already_analyzed_count = 0,
                caches = emb_store es\<rparr>"
  let ?cards = "map (\<lambda>(href, title). (dzen_card_url href, title)) cards"
  have ok0: "recorded_scores_ok (filtered_dzen_history ?st0)" by (simp add: recorded_scores_ok_def)
  show ?thesis
  proof (cases "card_loop env ?inp ?st0 ?cards")
    case (Inl e)
    then show ?thesis using Some
      by (simp add: fetch_dzen_news_def accepted_records_def recorded_scores_ok_def Let_def)
  next
    case (Inr st)
    from card_loop_scores[OF Inr ok0] have "recorded_scores_ok (filtered_dzen_history st)" .
    then show ?thesis using Some Inr
      by (simp add: fetch_dzen_news_def accepted_records_def Let_def)
  qed
qed

text \<open>
  C2 (as amended). The scorer never returns more than 1, and returns 0.0 when the
  comparison raises; it can return a negative number, since a cosine can be
  negative. The best score of \<open>find_best_match\<close> lies in \<open>[0, 1]\<close>, because the pass
  starts at 0.0 and replaces its best only by a greater score; hence every
  \<open>similarity_score\<close> recorded by a pass of \<open>fetch_dzen_news\<close> is either absent (a
  keyword match) or a number in \<open>[0, 1]\<close>, and every semantic match carries a number.
\<close>

theorem similarity_scores_bounded:
  "fst (calculate_similarity_sbert env cs u t item) \<le> 1 \<and>
   0 \<le> snd (fst (find_best_match env cs t items)) \<and>
   snd (fst (find_best_match env cs t items)) \<le> 1 \<and>
   recorded_scores_ok (accepted_records
     (fetch_dzen_news env threshold max_urls recent now es mosru_history history_urls cards))"
  using calculate_similarity_le_1[of env cs u t item] find_best_match_bounds[of env cs t items]
    fetch_dzen_news_scores[of env threshold max_urls recent now es mosru_history history_urls cards]
  by simp

theorem similarity_scores_bounded_witness:
  "recorded_scores_ok (accepted_records (demo_pass demo_state [(py ''https://dzen.ru/b'', py ''b'')])) \<and>
   map match_type (accepted_records (demo_pass demo_state [(py ''https://dzen.ru/b'', py ''b'')]))
     = [Some (py ''sbert'')] \<and>
   map similarity_score (accepted_records (demo_pass demo_state [(py ''https://dzen.ru/b'', py ''b'')]))
     = [Score (4000000000 / 5000000001)]"
proof -
  have a: "recorded_scores_ok (accepted_records (demo_pass demo_state [(py ''https://dzen.ru/b'', py ''b'')]))"
    unfolding demo_pass_def
    by (rule similarity_scores_bounded[THEN conjunct2, THEN conjunct2, THEN conjunct2])
  have b: "map match_type (accepted_records (demo_pass demo_state [(py ''https://dzen.ru/b'', py ''b'')]))
     = [Some (py ''sbert'')] \<and>
   map similarity_score (accepted_records (demo_pass demo_state [(py ''https://dzen.ru/b'', py ''b'')]))
     = [Score (4000000000 / 5000000001)]"
    by (simp add: pass_defs eval_defs)
  from a b show ?thesis by (rule conjI)
qed

text \<open>
  The claim as it stands fails for the scorer itself: a candidate whose embedding
  points in the direction opposite to the embeddings of the reference item gets a
  negative score.
\<close>

theorem scorer_returns_negative_score:
  "fst (calculate_similarity_sbert demo_env demo_caches (py ''temp_0'') (py ''n'')
          (demo_item ''mos.ru/m/'' ''m'')) = - (1000000000 / 1000000001) \<and>
   fst (calculate_similarity_sbert demo_env demo_caches (py ''temp_0'') (py ''n'')
          (demo_item ''mos.ru/m/'' ''m'')) < 0"
  by (simp add: eval_defs)

section \<open>The claim about the analyzed urls\<close>

lemma nat_digits_value: "foldl (\<lambda>a d. 10 * a + (d - 48)) 0 (nat_digits n) = n"
proof (induction n rule: nat_digits.induct)
  case (1 n)
  show ?case
  proof (cases "n < 10")
    case True
    then show ?thesis by (subst nat_digits.simps) simp
  next
    case False
    with 1 have "foldl (\<lambda>a d. 10 * a + (d - 48)) 0 (nat_digits (n div 10)) = n div 10" by simp
    with False show ?thesis by (subst nat_digits.simps) simp
  qed
qed

lemma nat_digits_inj: "nat_digits n = nat_digits m \<Longrightarrow> n = m"
  using nat_digits_value[of n] nat_digits_value[of m] by simp

lemma nat_digits_first: "0 < n \<Longrightarrow> \<exists>d ds. nat_digits n = d # ds \<and> 49 \<le> d"
proof (induction n rule: nat_digits.induct)
  case (1 n)
  show ?case
  proof (cases "n < 10")
    case True
    with 1(2) show ?thesis by (subst nat_digits.simps) simp
  next
    case False
    then have "0 < n div 10" by simp
    with 1(1) False obtain d ds where "nat_digits (n div 10) = d # ds" "49 \<le> d" by blast
    with False show ?thesis by (subst nat_digits.simps) simp
  qed
qed

lemma demo_url_inj: "inj demo_url"
  by (rule injI) (simp add: demo_url_def nat_digits_inj)

lemma demo_url_0_least: "0 < n \<Longrightarrow> demo_url 0 < demo_url n"
proof -
  assume "0 < n"
  from nat_digits_first[OF this] obtain d ds where "nat_digits n = d # ds" "49 \<le> d" by blast
  then show ?thesis by (simp add: demo_url_def)
qed

lemma demo_analyzed_card: "finite demo_analyzed" "card demo_analyzed = 5000"
proof -
  show "finite demo_analyzed" by (simp add: demo_analyzed_def)
  have "inj_on demo_url {1..5000}" using demo_url_inj by (rule inj_on_subset) simp
  then show "card demo_analyzed = 5000" by (simp add: demo_analyzed_def card_image)
qed

lemma demo_url_0_below: "x \<in> demo_analyzed \<Longrightarrow> demo_url 0 < x"
proof -
  assume "x \<in> demo_analyzed"
  then obtain n where "x = demo_url n" "n \<in> {1..5000}" unfolding demo_analyzed_def by blast
  then show ?thesis using demo_url_0_least[of n] by simp
qed

lemma demo_url_0_new: "demo_url 0 \<notin> demo_analyzed"
  using demo_url_0_below[of "demo_url 0"] by blast

text \<open>
  Over the maximum by one, the trimming drops the url that comes first in the
  iteration order of the set.
\<close>

lemma trim_drops_first_in_order:
  assumes "finite S" "card S = Suc m" "0 < m"
    and "set (set_order env S) = S" "distinct (set_order env S)"
  shows "trim_analyzed_urls_if_needed env m S = S - {hd (set_order env S)}"
proof -
  from assms(2,4,5) have len: "length (set_order env S) = Suc m"
    using distinct_card by fastforce
  then obtain x xs where xs: "set_order env S = x # xs" by (cases "set_order env S") auto
  with len have "length xs = m" by simp
  then have "py_last_n m (set_order env S) = xs"
    using assms(3) xs by (simp add: py_last_n_def)
  moreover have "set xs = S - {x}" using assms(4,5) xs by auto
  ultimately show ?thesis using assms(2) xs by (simp add: trim_analyzed_urls_if_needed_def)
qed

text \<open>
  The size bound holds: a set within the maximum stays within it, whatever the
  iteration order.
\<close>

lemma add_analyzed_urls_card_le:
  assumes "card S \<le> m" "0 < m"
  shows "card (add_analyzed_urls env m urls S) \<le> m"
proof (cases "urls = [] \<or> card (S \<union> set urls) \<le> m")
  case True
  then show ?thesis using assms(1)
    by (auto simp: add_analyzed_urls_def trim_analyzed_urls_if_needed_def)
next
  case False
  let ?xs = "set_order env (S \<union> set urls)"
  have "card (set (py_last_n m ?xs)) \<le> length (py_last_n m ?xs)" by (rule card_length)
  also have "\<dots> \<le> m" using assms(2) by (simp add: py_last_n_def)
  finally show ?thesis using False
    by (simp add: add_analyzed_urls_def trim_analyzed_urls_if_needed_def)
qed

text \<open>
  C9, the code at its maximum. The analyzed set holds the 5000 urls
  \<open>https://dzen.ru/a/1\<close> to \<open>https://dzen.ru/a/5000\<close>, added in any order, and the new url
  \<open>https://dzen.ru/a/0\<close> is added. With a set that iterates in sorted order the
  trimming drops the url that was just added, the newest one, and keeps all the older
  ones: the set is the same as before and the new url is not analyzed.
\<close>

theorem trimming_drops_newest_url:
  "add_analyzed_urls demo_env MAX_ANALYZED_URLS [demo_url 0] demo_analyzed = demo_analyzed \<and>
   \<not> is_url_analyzed
       (add_analyzed_urls demo_env MAX_ANALYZED_URLS [demo_url 0] demo_analyzed) (demo_url 0) \<and>
   is_url_analyzed
       (add_analyzed_urls demo_env MAX_ANALYZED_URLS [demo_url 0] demo_analyzed) (demo_url 1) \<and>
   card (add_analyzed_urls demo_env MAX_ANALYZED_URLS [demo_url 0] demo_analyzed) = MAX_ANALYZED_URLS"
proof -
  let ?S = "insert (demo_url 0) demo_analyzed"
  have fin: "finite ?S" using demo_analyzed_card(1) by simp
  have cd: "card ?S = Suc 5000"
    using demo_analyzed_card demo_url_0_new by simp
  have mn: "Min ?S = demo_url 0"
  proof (rule Min_eqI)
    show "finite ?S" by (rule fin)
    show "demo_url 0 \<in> ?S" by simp
    fix y assume "y \<in> ?S"
    then show "demo_url 0 \<le> y" using demo_url_0_below[of y] by auto
  qed
  have ne: "?S \<noteq> {}" by simp
  have "sorted_list_of_set ?S = Min ?S # sorted_list_of_set (?S - {Min ?S})"
    using fin ne by (rule sorted_list_of_set_nonempty)
  then have hd: "hd (set_order demo_env ?S) = demo_url 0"
    by (simp only: demo_env_fields mn list.sel)
  have s1: "set (set_order demo_env ?S) = ?S"
    using fin by (simp only: demo_env_fields set_sorted_list_of_set)
  have s2: "distinct (set_order demo_env ?S)"
    by (simp only: demo_env_fields distinct_sorted_list_of_set)
  have "trim_analyzed_urls_if_needed demo_env 5000 ?S = ?S - {hd (set_order demo_env ?S)}"
    using fin cd _ s1 s2 by (rule trim_drops_first_in_order) simp
  then have t: "trim_analyzed_urls_if_needed demo_env 5000 ?S = demo_analyzed"
    using demo_url_0_new by (simp only: hd) simp
  have r: "add_analyzed_urls demo_env MAX_ANALYZED_URLS [demo_url 0] demo_analyzed = demo_analyzed"
    using t by (simp add: add_analyzed_urls_def MAX_ANALYZED_URLS_def)
  have "(1::nat) \<in> {1..5000}" by simp
  then have "demo_url 1 \<in> demo_analyzed" unfolding demo_analyzed_def by (rule imageI)
  with r demo_url_0_new demo_analyzed_card(2) show ?thesis
    by (simp add: is_url_analyzed_def MAX_ANALYZED_URLS_def)
qed

section \<open>What the fetchers return\<close>

lemma normalize_mosru_url_idem:
  "normalize_mosru_url (normalize_mosru_url url) = normalize_mosru_url url"
proof (cases "url = []")
  case True
  then show ?thesis by (simp add: normalize_mosru_url_def)
next
  case False
  define u where "u = takeWhile (\<lambda>c. c \<noteq> 63) url"
  have all: "\<And>x. x \<in> set u \<Longrightarrow> x \<noteq> 63"
    unfolding u_def by (drule set_takeWhileD) simp
  show ?thesis
  proof (cases "u \<noteq> [] \<and> last u = 47")
    case True
    have r: "normalize_mosru_url url = u"
      using False True by (simp add: normalize_mosru_url_def Let_def u_def)
    have tw: "takeWhile (\<lambda>c. c \<noteq> 63) u = u" unfolding u_def by (rule takeWhile_idem)
    have "normalize_mosru_url u = u"
      using True by (simp add: normalize_mosru_url_def Let_def tw)
    then show ?thesis by (simp only: r)
  next
    case no: False
    have r: "normalize_mosru_url url = u @ [47]"
      using False no by (simp add: normalize_mosru_url_def Let_def u_def)
    have "takeWhile (\<lambda>c. c \<noteq> 63) (u @ [47]) = u @ takeWhile (\<lambda>c. c \<noteq> 63) [47::nat]"
      by (rule takeWhile_append2) (rule all)
    then have tw: "takeWhile (\<lambda>c. c \<noteq> 63) (u @ [47]) = u @ [47]" by simp
    have "normalize_mosru_url (u @ [47]) = u @ [47]"
      by (simp add: normalize_mosru_url_def Let_def tw)
    then show ?thesis by (simp only: r)
  qed
qed

lemma mosru_item_urls [simp]:
  "n_url (mosru_news_item url title snippet) = url"
  "m_url (mosru_history_item now url title snippet) = url"
  by (simp_all add: mosru_news_item_def mosru_history_item_def)

lemma mosru_card_url_normalized: "normalize_mosru_url (mosru_card_url href) = mosru_card_url href"
  unfolding mosru_card_url_def by (rule normalize_mosru_url_idem)

lemma mosru_card_loop_paired:
  assumes "map n_url news = map m_url hist"
    and "\<forall>i\<in>set hist. normalize_mosru_url (m_url i) = m_url i"
  shows "map n_url (fst (mosru_card_loop now k cards seen news hist)) =
           map m_url (snd (mosru_card_loop now k cards seen news hist)) \<and>
         (\<forall>i\<in>set (snd (mosru_card_loop now k cards seen news hist)).
            normalize_mosru_url (m_url i) = m_url i)"
  using assms
proof (induction cards arbitrary: seen news hist)
  case Nil
  then show ?case by simp
next
  case (Cons c cards)
  obtain href title snippet where c: "c = (href, title, snippet)" by (cases c)
  define url where "url = mosru_card_url href"
  have idem: "normalize_mosru_url url = url" unfolding url_def by (rule mosru_card_url_normalized)
  define news' where "news' = (if title \<noteq> [] then news @ [mosru_news_item url title snippet] else news)"
  define hist' where
    "hist' = (if title \<noteq> [] then hist @ [mosru_history_item now url title snippet] else hist)"
  have p1: "map n_url news' = map m_url hist'" using Cons.prems(1) by (simp add: news'_def hist'_def)
  have p2: "\<forall>i\<in>set hist'. normalize_mosru_url (m_url i) = m_url i"
    using Cons.prems(2) idem by (simp add: hist'_def)
  have step: "mosru_card_loop now k (c # cards) seen news hist =
      (if url = [] \<or> url \<in> seen then mosru_card_loop now k cards seen news hist
       else if k \<le> length news' then (news', hist')
       else mosru_card_loop now k cards (insert url seen) news' hist')"
    unfolding c url_def news'_def hist'_def by (simp only: mosru_card_loop.simps Let_def)
  show ?case
  proof (cases "url = [] \<or> url \<in> seen")
    case True
    then have eq: "mosru_card_loop now k (c # cards) seen news hist =
               mosru_card_loop now k cards seen news hist"
      by (simp only: step if_True)
    show ?thesis unfolding eq by (rule Cons.IH[OF Cons.prems])
  next
    case False
    show ?thesis
    proof (cases "k \<le> length news'")
      case True
      with False have eq: "mosru_card_loop now k (c # cards) seen news hist = (news', hist')"
        by (simp only: step if_True if_False)
      show ?thesis unfolding eq fst_conv snd_conv using p1 p2 by (rule conjI)
    next
      case stop: False
      with False have eq: "mosru_card_loop now k (c # cards) seen news hist =
                       mosru_card_loop now k cards (insert url seen) news' hist'"
        by (simp only: step if_False)
      show ?thesis unfolding eq by (rule Cons.IH[OF p1 p2])
    qed
  qed
qed

lemma unique_by_url_paired:
  assumes "map f xs = map g ys"
    and "map fst d1 = map fst d2"
    and "map f (map snd d1) = map g (map snd d2)"
  shows "map f (map snd (unique_by_url f xs d1)) = map g (map snd (unique_by_url g ys d2))"
  using assms
proof (induction xs arbitrary: ys d1 d2)
  case Nil
  then show ?case by simp
next
  case (Cons x xs)
  then obtain y ys' where ys: "ys = y # ys'" "f x = g y" "map f xs = map g ys'" by auto
  show ?case
  proof (cases "rstrip_slash (f x) @ [47] \<in> set (map fst d1)")
    case True
    with Cons.prems(2) ys(2) have "rstrip_slash (g y) @ [47] \<in> set (map fst d2)" by simp
    with True show ?thesis
      using Cons.IH[OF ys(3) Cons.prems(2) Cons.prems(3)] ys(1) by (simp add: Let_def)
  next
    case False
    with Cons.prems(2) ys(2) have n2: "rstrip_slash (g y) @ [47] \<notin> set (map fst d2)" by simp
    let ?d1 = "d1 @ [(rstrip_slash (f x) @ [47], x)]"
    let ?d2 = "d2 @ [(rstrip_slash (g y) @ [47], y)]"
    have a: "map fst ?d1 = map fst ?d2" using Cons.prems(2) ys(2) by simp
    have b: "map f (map snd ?d1) = map g (map snd ?d2)" using Cons.prems(3) ys(2) by simp
    from Cons.IH[OF ys(3) a b] False n2 ys(1) show ?thesis by (simp add: Let_def)
  qed
qed

lemma unique_by_url_subset:
  "set (map snd (unique_by_url f xs d)) \<subseteq> set xs \<union> set (map snd d)"
proof (induction xs arbitrary: d)
  case Nil
  then show ?case by simp
next
  case (Cons x xs)
  show ?case
    using Cons.IH[of d] Cons.IH[of "d @ [(rstrip_slash (f x) @ [47], x)]"]
    by (auto simp: Let_def)
qed

text \<open>
  The portal fetcher returns its delivered items and its history items with the
  same urls, in the same order, and every url is normalized.
\<close>

lemma get_all_mosru_news_paired:
  "map n_url (fst (get_all_mosru_news now1 now2 page1 page2)) =
     map m_url (snd (get_all_mosru_news now1 now2 page1 page2))"
  "\<forall>i\<in>set (snd (get_all_mosru_news now1 now2 page1 page2)).
     normalize_mosru_url (m_url i) = m_url i"
proof -
  obtain n1 h1 where f1: "fetch_mosru_news now1 page1 = (n1, h1)" by (cases "fetch_mosru_news now1 page1")
  obtain n2 h2 where f2: "fetch_mosru_news now2 page2 = (n2, h2)" by (cases "fetch_mosru_news now2 page2")
  have page: "\<And>now page n h. fetch_mosru_news now page = (n, h) \<Longrightarrow>
      map n_url n = map m_url h \<and> (\<forall>i\<in>set h. normalize_mosru_url (m_url i) = m_url i)"
  proof -
    fix now page n h assume f: "fetch_mosru_news now page = (n, h)"
    show "map n_url n = map m_url h \<and> (\<forall>i\<in>set h. normalize_mosru_url (m_url i) = m_url i)"
    proof (cases page)
      case None
      with f show ?thesis by (auto simp: fetch_mosru_news_def)
    next
      case (Some cards)
      have "map n_url ([]::NewsItem list) = map m_url ([]::MosruHistoryItem list)" by simp
      moreover have "\<forall>i\<in>set ([]::MosruHistoryItem list). normalize_mosru_url (m_url i) = m_url i"
        by simp
      ultimately show ?thesis
        using mosru_card_loop_paired[of "[]" "[]" now 20 cards "{}"] f Some
        by (simp add: fetch_mosru_news_def)
    qed
  qed
  from page[OF f1] page[OF f2]
  have p: "map n_url (n1 @ n2) = map m_url (h1 @ h2)"
    and q: "\<forall>i\<in>set (h1 @ h2). normalize_mosru_url (m_url i) = m_url i" by auto
  have r: "get_all_mosru_news now1 now2 page1 page2 =
           (map snd (unique_by_url n_url (n1 @ n2) []), map snd (unique_by_url m_url (h1 @ h2) []))"
    by (simp add: get_all_mosru_news_def f1 f2)
  show "map n_url (fst (get_all_mosru_news now1 now2 page1 page2)) =
          map m_url (snd (get_all_mosru_news now1 now2 page1 page2))"
    unfolding r fst_conv snd_conv by (rule unique_by_url_paired[OF p]) simp_all
  show "\<forall>i\<in>set (snd (get_all_mosru_news now1 now2 page1 page2)).
          normalize_mosru_url (m_url i) = m_url i"
    unfolding r snd_conv using unique_by_url_subset[of m_url "h1 @ h2" "[]"] q by auto
qed

lemma accept_sbert_paired:
  assumes "map n_url (filtered_dzen_news st) = map d_url (filtered_dzen_history st)"
  shows "map n_url (filtered_dzen_news (accept_sbert env inp st url title best score)) =
         map d_url (filtered_dzen_history (accept_sbert env inp st url title best score))"
  using assms by (simp add: accept_sbert_def dzen_news_item_def)

lemma keyword_fallback_paired:
  assumes "map n_url (filtered_dzen_news st) = map d_url (filtered_dzen_history st)"
  shows "map n_url (filtered_dzen_news (keyword_fallback env inp st url title)) =
         map d_url (filtered_dzen_history (keyword_fallback env inp st url title))"
  using assms by (simp add: keyword_fallback_def dzen_news_item_def Let_def)

lemma match_card_paired:
  assumes m: "match_card env inp st url title = Inr st'"
    and ok: "map n_url (filtered_dzen_news st) = map d_url (filtered_dzen_history st)"
  shows "map n_url (filtered_dzen_news st') = map d_url (filtered_dzen_history st')"
proof -
  obtain bi bs c' where f: "find_best_match env (caches st) title (recent_mosru inp) = ((bi, bs), c')"
    by (cases "find_best_match env (caches st) title (recent_mosru inp)") auto
  have ok1: "map n_url (filtered_dzen_news (st\<lparr>caches := c'\<rparr>)) =
             map d_url (filtered_dzen_history (st\<lparr>caches := c'\<rparr>))" using ok by simp
  show ?thesis
  proof (cases bi)
    case None
    with f m have "st' = keyword_fallback env inp (st\<lparr>caches := c'\<rparr>) url title"
      by (simp add: match_card_none)
    then show ?thesis using keyword_fallback_paired[OF ok1] by simp
  next
    case (Some best)
    show ?thesis
    proof (cases "SBERT_SIMILARITY_THRESHOLD inp \<le> bs")
      case False
      then have "bs < SBERT_SIMILARITY_THRESHOLD inp" by simp
      from match_card_below[OF f this] m
      have "st' = keyword_fallback env inp (st\<lparr>caches := c'\<rparr>) url title" by simp
      then show ?thesis using keyword_fallback_paired[OF ok1] by simp
    next
      case True
      note ge = True
      note f' = f[unfolded Some]
      show ?thesis
      proof (cases "mosru_url_already_used (dzen_history_raw st) (m_url best) bs")
        case (Inl e)
        from match_card_raise[OF f' ge Inl] m show ?thesis by simp
      next
        case (Inr used)
        show ?thesis
        proof (cases used)
          case True
          with Inr have u: "mosru_url_already_used (dzen_history_raw st) (m_url best) bs = Inr True"
            by simp
          from match_card_reject[OF f' ge u] m
          have "st' = st\<lparr>caches := c', filtered_out_urls := filtered_out_urls st @ [url]\<rparr>" by simp
          then show ?thesis using ok by simp
        next
          case False
          with Inr have u: "mosru_url_already_used (dzen_history_raw st) (m_url best) bs = Inr False"
            by simp
          from match_card_accept[OF f' ge u] m
          have "st' = accept_sbert env inp (st\<lparr>caches := c'\<rparr>) url title best bs" by simp
          then show ?thesis using accept_sbert_paired[OF ok1] by simp
        qed
      qed
    qed
  qed
qed

lemma rename_in_place_news [simp]:
  "filtered_dzen_news (rename_in_place env inp st url nt old) = filtered_dzen_news st"
  by (simp add: rename_in_place_def Let_def)

lemma process_card_paired:
  assumes p: "process_card env inp st page_card = Inr st'"
    and ok: "map n_url (filtered_dzen_news st) = map d_url (filtered_dzen_history st)"
  shows "map n_url (filtered_dzen_news st') = map d_url (filtered_dzen_history st')"
proof -
  obtain url title where pc: "page_card = (url, title)" by (cases page_card)
  let ?st1 = "st\<lparr>url_set := insert url (url_set st)\<rparr>"
  have ok1: "map n_url (filtered_dzen_news ?st1) = map d_url (filtered_dzen_history ?st1)"
    using ok by simp
  show ?thesis
  proof (cases "url = [] \<or> title = [] \<or> url \<in> url_set st")
    case True
    with p pc have "st' = st" by (simp add: process_card_def)
    then show ?thesis using ok by simp
  next
    case skip: False
    show ?thesis
    proof (cases "is_url_analyzed (analyzed_before inp) url")
      case True
      with p pc skip have "st' = st\<lparr>already_analyzed_count := already_analyzed_count st + 1\<rparr>"
        by (simp add: process_card_def)
      then show ?thesis using ok by simp
    next
      case seen: False
      show ?thesis
      proof (cases "dzen_title_map st (normalize_text env title)")
        case (Some old)
        with p pc skip seen
        have "st' = rename_in_place env inp ?st1 url (normalize_text env title) old"
          by (simp add: process_card_def Let_def)
        then show ?thesis using ok by simp
      next
        case None
        show ?thesis
        proof (cases "url \<in> dzen_history_urls inp")
          case True
          with p pc skip seen None have "st' = ?st1" by (simp add: process_card_def Let_def)
          then show ?thesis using ok by simp
        next
          case False
          with p pc skip seen None have "match_card env inp ?st1 url title = Inr st'"
            by (simp add: process_card_def Let_def)
          from match_card_paired[OF this ok1] show ?thesis .
        qed
      qed
    qed
  qed
qed

lemma card_loop_paired:
  "card_loop env inp st cards = Inr st' \<Longrightarrow>
   map n_url (filtered_dzen_news st) = map d_url (filtered_dzen_history st) \<Longrightarrow>
   map n_url (filtered_dzen_news st') = map d_url (filtered_dzen_history st')"
proof (induction cards arbitrary: st)
  case Nil
  then show ?case by simp
next
  case (Cons c cards)
  show ?case
  proof (cases "process_card env inp st c")
    case (Inl e)
    with Cons.prems show ?thesis by simp
  next
    case (Inr st1)
    from process_card_paired[OF Inr Cons.prems(2)]
    have "map n_url (filtered_dzen_news st1) = map d_url (filtered_dzen_history st1)" .
    moreover from Cons.prems(1) Inr have "card_loop env inp st1 cards = Inr st'" by simp
    ultimately show ?thesis by (rule Cons.IH[rotated])
  qed
qed

text \<open>
  The aggregator fetcher returns its delivered items and its records with the same
  urls, in the same order.
\<close>

lemma fetch_dzen_news_paired:
  "map n_url (delivered_items
     (fetch_dzen_news env threshold max_urls recent now es mosru_history history_urls cards)) =
   map d_url (accepted_records
     (fetch_dzen_news env threshold max_urls recent now es mosru_history history_urls cards))"
proof (cases "keywords_topics env")
  case None
  then show ?thesis
    by (simp add: fetch_dzen_news_def accepted_records_def delivered_items_def)
next
  case (Some topics)
  let ?inp = "\<lparr>SBERT_SIMILARITY_THRESHOLD = threshold,
                analyzed_before = analyzed_urls es,
                dzen_history_urls = history_urls,
                recent_mosru = filter (\<lambda>i. recent (m_added_at i))
                   (map (\<lambda>i. if recent (m_added_at i)
                             then i\<lparr>m_url := normalize_mosru_url (m_url i)\<rparr> else i) mosru_history),
                norm_keywords = set_order env (set (map (normalize_text env) topics)),
                now_iso = now\<rparr>"
  let ?st0 = "\<lparr>url_set = {},
                dzen_title_map = build_title_map env (dzen_history_store es),
                dzen_history_raw = dzen_history_store es,
                dzen_history_file = dzen_history_store es,
                filtered_dzen_news = [],
                filtered_dzen_history = [],
                filtered_out_urls = [],
                already_analyzed_count = 0,
                caches = emb_store es\<rparr>"
  let ?cards = "map (\<lambda>(href, title). (dzen_card_url href, title)) cards"
  have ok0: "map n_url (filtered_dzen_news ?st0) = map d_url (filtered_dzen_history ?st0)" by simp
  show ?thesis
  proof (cases "card_loop env ?inp ?st0 ?cards")
    case (Inl e)
    then show ?thesis using Some
      by (simp add: fetch_dzen_news_def accepted_records_def delivered_items_def Let_def)
  next
    case (Inr st)
    from card_loop_paired[OF Inr ok0]
    have "map n_url (filtered_dzen_news st) = map d_url (filtered_dzen_history st)" .
    then show ?thesis using Some Inr
      by (simp add: fetch_dzen_news_def accepted_records_def delivered_items_def Let_def)
  qed
qed

section \<open>The claim about the reconciliation\<close>

lemma reconcile_fields:
  "new_mosru_news (reconcile recent mh dh mn mi dn di) =
     filter (\<lambda>news. n_url news \<notin> set (map m_url mh)) mn"
  "new_mosru_history (reconcile recent mh dh mn mi dn di) =
     filter (\<lambda>item. m_url item \<notin> set (map m_url mh)) mi"
  "new_dzen_news (reconcile recent mh dh mn mi dn di) =
     filter (\<lambda>news. n_url news \<notin> set (map d_url dh)) dn"
  "new_dzen_history (reconcile recent mh dh mn mi dn di) =
     filter (\<lambda>item. d_url item \<notin> set (map d_url dh)) di"
  "dzen_history_out (reconcile recent mh dh mn mi dn di) =
     dh @ filter (\<lambda>item. d_url item \<notin> set (map d_url dh)) di"
  "dzen_saved (reconcile recent mh dh mn mi dn di) =
     (filter (\<lambda>item. d_url item \<notin> set (map d_url dh)) di \<noteq> [])"
  by (simp_all add: reconcile_def Let_def)

lemma url_kept_by_map:
  assumes "i \<in> set H" and "m_url (f i) = m_url i"
  shows "m_url i \<in> set (map m_url (map f H))"
proof -
  from assms(1) have "m_url (f i) \<in> (\<lambda>x. m_url (f x)) ` set H" by (rule imageI)
  with assms(2) show ?thesis by (simp add: image_image)
qed

lemma reconcile_mosru_out:
  "mosru_history_out (reconcile recent mh dh mn mi dn di) =
     map (\<lambda>i. let j = (if recent (m_added_at i) then i\<lparr>m_url := normalize_mosru_url (m_url i)\<rparr> else i)
               in if m_url j \<in> {u. u \<noteq> [] \<and> Some u \<in> set (map mosru_source_url di)} \<and> \<not> in_dzen j
                  then j\<lparr>in_dzen := True\<rparr> else j)
       (mh @ filter (\<lambda>item. m_url item \<notin> set (map m_url mh)) mi)"
  by (simp add: reconcile_def Let_def)

lemma reconcile_mosru_out_urls:
  assumes "i \<in> set (mh @ filter (\<lambda>item. m_url item \<notin> set (map m_url mh)) mi)"
    and "normalize_mosru_url (m_url i) = m_url i"
  shows "m_url i \<in> set (map m_url (mosru_history_out (reconcile recent mh dh mn mi dn di)))"
  unfolding reconcile_mosru_out
  by (rule url_kept_by_map[OF assms(1)]) (simp add: assms(2) Let_def)

lemma persisted_mosru_knows_fetched:
  assumes "i \<in> set mi" and "normalize_mosru_url (m_url i) = m_url i"
    and "\<forall>j\<in>set mi. normalize_mosru_url (m_url j) = m_url j"
  shows "m_url i \<in> set (map m_url (persisted_mosru (reconcile recent mh dh mn mi dn di) mh))"
proof (cases "m_url i \<in> set (map m_url mh)")
  case False
  with assms(1) have new: "i \<in> set (filter (\<lambda>item. m_url item \<notin> set (map m_url mh)) mi)" by simp
  then have "filter (\<lambda>item. m_url item \<notin> set (map m_url mh)) mi \<noteq> []"
    by (metis empty_iff empty_set)
  then have saved: "mosru_saved (reconcile recent mh dh mn mi dn di)"
    by (simp add: reconcile_def Let_def)
  from new have "i \<in> set (mh @ filter (\<lambda>item. m_url item \<notin> set (map m_url mh)) mi)" by simp
  from reconcile_mosru_out_urls[OF this assms(2)] saved show ?thesis
    by (simp add: persisted_mosru_def)
next
  case True
  then obtain j where j: "j \<in> set mh" "m_url j = m_url i" by auto
  show ?thesis
  proof (cases "mosru_saved (reconcile recent mh dh mn mi dn di)")
    case False
    with True show ?thesis by (simp add: persisted_mosru_def)
  next
    case saved: True
    from j(1) have "j \<in> set (mh @ filter (\<lambda>item. m_url item \<notin> set (map m_url mh)) mi)" by simp
    moreover from j(2) assms(2) have "normalize_mosru_url (m_url j) = m_url j" by simp
    ultimately have "m_url j \<in> set (map m_url (mosru_history_out (reconcile recent mh dh mn mi dn di)))"
      by (rule reconcile_mosru_out_urls)
    with saved j(2) show ?thesis by (simp add: persisted_mosru_def)
  qed
qed

lemma persisted_dzen_knows_fetched:
  assumes "i \<in> set di"
  shows "d_url i \<in> set (map d_url (persisted_dzen (reconcile recent mh dh mn mi dn di) dh))"
proof (cases "d_url i \<in> set (map d_url dh)")
  case True
  then show ?thesis by (auto simp: persisted_dzen_def reconcile_fields)
next
  case False
  with assms have "i \<in> set (filter (\<lambda>item. d_url item \<notin> set (map d_url dh)) di)" by simp
  moreover from this have "filter (\<lambda>item. d_url item \<notin> set (map d_url dh)) di \<noteq> []"
    by (metis empty_iff empty_set)
  ultimately show ?thesis by (auto simp: persisted_dzen_def reconcile_fields)
qed

text \<open>
  C7. The two fetchers return each delivered item together with a history item of
  the same url, and the portal fetcher returns normalized urls. For such fetched
  lists and any persisted histories, a second reconciliation on the files the first
  one left and the same fetched lists finds nothing new: the two delivery lists and
  the two lists of new history items are empty, and the aggregator history is not
  written again.
\<close>

theorem reconciliation_idempotent:
  assumes "set (map n_url mosru_news) \<subseteq> set (map m_url mosru_new_items)"
    and "\<forall>i\<in>set mosru_new_items. normalize_mosru_url (m_url i) = m_url i"
    and "set (map n_url dzen_news) \<subseteq> set (map d_url dzen_new_items)"
  shows "new_mosru_news (run_twice recent recent' mosru_history dzen_history
            mosru_news mosru_new_items dzen_news dzen_new_items) = [] \<and>
         new_dzen_news (run_twice recent recent' mosru_history dzen_history
            mosru_news mosru_new_items dzen_news dzen_new_items) = [] \<and>
         new_mosru_history (run_twice recent recent' mosru_history dzen_history
            mosru_news mosru_new_items dzen_news dzen_new_items) = [] \<and>
         new_dzen_history (run_twice recent recent' mosru_history dzen_history
            mosru_news mosru_new_items dzen_news dzen_new_items) = [] \<and>
         \<not> dzen_saved (run_twice recent recent' mosru_history dzen_history
            mosru_news mosru_new_items dzen_news dzen_new_items)"
proof -
  let ?r1 = "reconcile recent mosru_history dzen_history mosru_news mosru_new_items
               dzen_news dzen_new_items"
  let ?pm = "persisted_mosru ?r1 mosru_history"
  let ?pd = "persisted_dzen ?r1 dzen_history"
  have rt: "run_twice recent recent' mosru_history dzen_history mosru_news mosru_new_items
              dzen_news dzen_new_items =
            reconcile recent' ?pm ?pd mosru_news mosru_new_items dzen_news dzen_new_items"
    by (simp add: run_twice_def Let_def)
  have m: "\<And>i. i \<in> set mosru_new_items \<Longrightarrow> m_url i \<in> set (map m_url ?pm)"
    using assms(2) by (intro persisted_mosru_knows_fetched) auto
  have d: "\<And>i. i \<in> set dzen_new_items \<Longrightarrow> d_url i \<in> set (map d_url ?pd)"
    by (rule persisted_dzen_knows_fetched)
  have mn: "\<And>n. n \<in> set mosru_news \<Longrightarrow> n_url n \<in> set (map m_url ?pm)"
  proof -
    fix n assume "n \<in> set mosru_news"
    with assms(1) obtain i where "i \<in> set mosru_new_items" "m_url i = n_url n" by auto
    with m[of i] show "n_url n \<in> set (map m_url ?pm)" by simp
  qed
  have dn: "\<And>n. n \<in> set dzen_news \<Longrightarrow> n_url n \<in> set (map d_url ?pd)"
  proof -
    fix n assume "n \<in> set dzen_news"
    with assms(3) obtain i where "i \<in> set dzen_new_items" "d_url i = n_url n" by auto
    with d[of i] show "n_url n \<in> set (map d_url ?pd)" by simp
  qed
  have a: "filter (\<lambda>news. n_url news \<notin> set (map m_url ?pm)) mosru_news = []"
    using mn by (simp add: filter_empty_conv)
  have b: "filter (\<lambda>news. n_url news \<notin> set (map d_url ?pd)) dzen_news = []"
    using dn by (simp add: filter_empty_conv)
  have c: "filter (\<lambda>item. m_url item \<notin> set (map m_url ?pm)) mosru_new_items = []"
    using m by (simp add: filter_empty_conv)
  have e: "filter (\<lambda>item. d_url item \<notin> set (map d_url ?pd)) dzen_new_items = []"
    using d by (simp add: filter_empty_conv)
  show ?thesis
    by (simp only: rt reconcile_fields a b c e) simp
qed

theorem reconciliation_idempotent_witness:
  "map n_url (new_mosru_news (reconcile (\<lambda>added_at. True) demo_portal_history [demo_prior_claim]
      (fst demo_portal_fetch) (snd demo_portal_fetch)
      (delivered_items demo_dzen_fetch) (accepted_records demo_dzen_fetch)))
     = [py ''https://www.mos.ru/news/item/2/''] \<and>
   map n_url (new_dzen_news (reconcile (\<lambda>added_at. True) demo_portal_history [demo_prior_claim]
      (fst demo_portal_fetch) (snd demo_portal_fetch)
      (delivered_items demo_dzen_fetch) (accepted_records demo_dzen_fetch)))
     = [py ''https://dzen.ru/b''] \<and>
   new_mosru_news (run_twice (\<lambda>added_at. True) (\<lambda>added_at. True) demo_portal_history [demo_prior_claim]
      (fst demo_portal_fetch) (snd demo_portal_fetch)
      (delivered_items demo_dzen_fetch) (accepted_records demo_dzen_fetch)) = [] \<and>
   new_dzen_news (run_twice (\<lambda>added_at. True) (\<lambda>added_at. True) demo_portal_history [demo_prior_claim]
      (fst demo_portal_fetch) (snd demo_portal_fetch)
      (delivered_items demo_dzen_fetch) (accepted_records demo_dzen_fetch)) = [] \<and>
   new_mosru_history (run_twice (\<lambda>added_at. True) (\<lambda>added_at. True) demo_portal_history [demo_prior_claim]
      (fst demo_portal_fetch) (snd demo_portal_fetch)
      (delivered_items demo_dzen_fetch) (accepted_records demo_dzen_fetch)) = [] \<and>
   new_dzen_history (run_twice (\<lambda>added_at. True) (\<lambda>added_at. True) demo_portal_history [demo_prior_claim]
      (fst demo_portal_fetch) (snd demo_portal_fetch)
      (delivered_items demo_dzen_fetch) (accepted_records demo_dzen_fetch)) = []"
proof -
  have h1: "set (map n_url (fst demo_portal_fetch)) \<subseteq> set (map m_url (snd demo_portal_fetch))"
    unfolding demo_portal_fetch_def by (simp only: get_all_mosru_news_paired(1) subset_refl)
  have h2: "\<forall>i\<in>set (snd demo_portal_fetch). normalize_mosru_url (m_url i) = m_url i"
    unfolding demo_portal_fetch_def by (rule get_all_mosru_news_paired(2))
  have h3: "set (map n_url (delivered_items demo_dzen_fetch)) \<subseteq>
            set (map d_url (accepted_records demo_dzen_fetch))"
    unfolding demo_dzen_fetch_def demo_pass_def by (simp only: fetch_dzen_news_paired subset_refl)
  note t = reconciliation_idempotent[OF h1 h2 h3, of "\<lambda>added_at. True" "\<lambda>added_at. True"
      demo_portal_history "[demo_prior_claim]"]
  have p: "map n_url (fst demo_portal_fetch) =
             [py ''https://www.mos.ru/news/item/1/'', py ''https://www.mos.ru/news/item/2/'']"
    by (simp add: demo_portal_fetch_def get_all_mosru_news_def fetch_mosru_news_def
        mosru_card_url_def normalize_mosru_url_def mosru_news_item_def mosru_history_item_def
        rstrip_slash_def Let_def)
  have q: "map n_url (delivered_items demo_dzen_fetch) = [py ''https://dzen.ru/b'']"
    by (simp add: demo_dzen_fetch_def delivered_items_def pass_defs eval_defs)
  have filter_urls: "\<And>S xs. map n_url (filter (\<lambda>news. n_url news \<notin> S) xs) =
      filter (\<lambda>u. u \<notin> S) (map n_url xs)"
    by (simp add: filter_map comp_def)
  have e1: "map n_url (new_mosru_news (reconcile (\<lambda>added_at. True) demo_portal_history [demo_prior_claim]
      (fst demo_portal_fetch) (snd demo_portal_fetch)
      (delivered_items demo_dzen_fetch) (accepted_records demo_dzen_fetch)))
     = [py ''https://www.mos.ru/news/item/2/'']"
    by (simp only: reconcile_fields filter_urls p) (simp add: demo_portal_history_def)
  have e2: "map n_url (new_dzen_news (reconcile (\<lambda>added_at. True) demo_portal_history [demo_prior_claim]
      (fst demo_portal_fetch) (snd demo_portal_fetch)
      (delivered_items demo_dzen_fetch) (accepted_records demo_dzen_fetch)))
     = [py ''https://dzen.ru/b'']"
    by (simp only: reconcile_fields filter_urls q) (simp add: demo_prior_claim_def)
  from e1 e2 t show ?thesis by (intro conjI) (elim conjE, assumption)+
qed

section \<open>The rename across a cycle\<close>

text \<open>
  The rename does not outlive a cycle that accepts a new item. The scheduler loads
  the aggregator history before the pass (scheduler.py, line 109) and saves its own
  copy, extended by the new records, after it (lines 163 and 168-169): the file the
  pass wrote with the new url \<open>C\<close> is overwritten with the old url \<open>B\<close>.
\<close>

lemma rename_lost_when_scheduler_saves:
  "map_option (map d_url)
     (saved_dzen_history (demo_pass (demo_state\<lparr>dzen_history_store := [demo_record_x2]\<rparr>)
        [(py ''https://dzen.ru/C'', py ''x''), (py ''https://dzen.ru/b'', py ''b'')]))
     = Some [py ''https://dzen.ru/C''] \<and>
   map d_url (persisted_dzen
     (reconcile (\<lambda>added_at. True) [] [demo_record_x2] [] []
        (delivered_items (demo_pass (demo_state\<lparr>dzen_history_store := [demo_record_x2]\<rparr>)
           [(py ''https://dzen.ru/C'', py ''x''), (py ''https://dzen.ru/b'', py ''b'')]))
        (accepted_records (demo_pass (demo_state\<lparr>dzen_history_store := [demo_record_x2]\<rparr>)
           [(py ''https://dzen.ru/C'', py ''x''), (py ''https://dzen.ru/b'', py ''b'')])))
     [demo_record_x2])
     = [py ''https://dzen.ru/B'', py ''https://dzen.ru/b'']"
proof -
  have r: "demo_pass (demo_state\<lparr>dzen_history_store := [demo_record_x2]\<rparr>)
        [(py ''https://dzen.ru/C'', py ''x''), (py ''https://dzen.ru/b'', py ''b'')] =
     Inr (([dzen_news_item demo_inputs (py ''https://dzen.ru/b'') (py ''b'')],
           [\<lparr>d_url = py ''https://dzen.ru/b'', d_title = py ''b'', d_added_at = now_iso demo_inputs,
             mosru_source_url = Some (py ''mos.ru/m/''), mosru_title = Some (py ''m''),
             mosru_snippet = Some [], match_type = Some (py ''sbert''),
             similarity_score = Score (4000000000 / 5000000001), common_words = Some 0,
             matched_keywords = []\<rparr>]),
          [demo_item ''mos.ru/m/'' ''m''],
          \<lparr>analyzed_urls = {py ''https://dzen.ru/b''},
           dzen_history_store =
             [demo_record_x2\<lparr>d_url := py ''https://dzen.ru/C'', d_added_at := now_iso demo_inputs\<rparr>],
           emb_store = demo_caches_after\<rparr>)"
    by (simp add: pass_defs eval_defs demo_caches_after_def demo_record_x2_def demo_inputs_def
        py_strip_def is_space_def)
  show ?thesis
    unfolding r
    by (simp add: saved_dzen_history_def accepted_records_def delivered_items_def
        persisted_dzen_def reconcile_fields demo_record_x2_def)
qed

end
